theory Spec2Isabelle
  imports Complex_Main
begin

section \<open>Numbers, outcomes and numpy values\<close>

text \<open>
  The program of \<^verbatim>\<open>PyButterflyVisualizer/main.py\<close> computes with Python floats and
  numpy arrays of float64. The embedding idealises a finite float as a real number: no
  rounding, no overflow. A run of the code either yields a value, raises an exception, or
  produces an infinity or a nan (numpy then prints a RuntimeWarning and carries on).

  \<^item> \<open>ZeroDivisionError\<close>: Python's \<^verbatim>\<open>/\<close> on two Python floats with divisor zero raises.
  \<^item> \<open>ValueError\<close>: numpy cannot broadcast two arrays of different lengths.
  \<^item> \<open>NonFinite\<close>: not an exception. Some operation had no real result (a numpy
    division by zero, the logarithm of a non-positive number, the square root of a
    negative number). The embedding has real numbers only and does not follow the run
    beyond that point: numpy may come back from an infinity to a finite number
    (\<^verbatim>\<open>norm.cdf\<close> of an infinity is 0 or 1), so \<open>Inl NonFinite\<close> says nothing about
    what the code returns in the end.
\<close>

datatype error = ZeroDivisionError | ValueError | NonFinite

text \<open>
  A value is a Python float, a numpy float64 scalar, or a one-dimensional array. The two
  kinds of scalar differ in division by zero and in what \<^verbatim>\<open>np.isscalar\<close> and the
  arithmetic operators return.
\<close>

datatype val = PyFloat real | NpFloat real | NdArray "real list"

type_synonym res = "error + val"

fun np_isscalar :: "val \<Rightarrow> bool" where
  "np_isscalar (PyFloat a) = True"
| "np_isscalar (NpFloat a) = True"
| "np_isscalar (NdArray xs) = False"

subsection \<open>Elementwise helpers\<close>

fun collect :: "(error + 'a) list \<Rightarrow> error + 'a list" where
  "collect [] = Inr []"
| "collect (Inl e # rs) = Inl e"
| "collect (Inr x # rs) = (case collect rs of Inl e \<Rightarrow> Inl e | Inr xs \<Rightarrow> Inr (x # xs))"

definition as_array :: "error + real list \<Rightarrow> res" where
  "as_array r = (case r of Inl e \<Rightarrow> Inl e | Inr xs \<Rightarrow> Inr (NdArray xs))"

definition as_np :: "error + real \<Rightarrow> res" where
  "as_np r = (case r of Inl e \<Rightarrow> Inl e | Inr x \<Rightarrow> Inr (NpFloat x))"

definition as_py :: "error + real \<Rightarrow> res" where
  "as_py r = (case r of Inl e \<Rightarrow> Inl e | Inr x \<Rightarrow> Inr (PyFloat x))"

text \<open>
  Broadcasting of two one-dimensional arrays: equal lengths pair up, a length-one array
  is stretched, anything else is a ValueError.
\<close>

definition broadcast :: "(real \<Rightarrow> real \<Rightarrow> error + real) \<Rightarrow> real list \<Rightarrow> real list \<Rightarrow> res" where
  "broadcast f xs ys =
     (if length xs = length ys then as_array (collect (map2 f xs ys))
      else if length xs = 1 then as_array (collect (map (f (hd xs)) ys))
      else if length ys = 1 then as_array (collect (map (\<lambda>x. f x (hd ys)) xs))
      else Inl ValueError)"

text \<open>
  A numpy binary ufunc (\<^verbatim>\<open>np.maximum\<close>): the result of two scalars is a float64.
\<close>

fun ufunc2 :: "(real \<Rightarrow> real \<Rightarrow> error + real) \<Rightarrow> val \<Rightarrow> val \<Rightarrow> res" where
  "ufunc2 f (NdArray xs) (NdArray ys) = broadcast f xs ys"
| "ufunc2 f (NdArray xs) (PyFloat b) = as_array (collect (map (\<lambda>x. f x b) xs))"
| "ufunc2 f (NdArray xs) (NpFloat b) = as_array (collect (map (\<lambda>x. f x b) xs))"
| "ufunc2 f (PyFloat a) (NdArray ys) = as_array (collect (map (f a) ys))"
| "ufunc2 f (NpFloat a) (NdArray ys) = as_array (collect (map (f a) ys))"
| "ufunc2 f (PyFloat a) (PyFloat b) = as_np (f a b)"
| "ufunc2 f (PyFloat a) (NpFloat b) = as_np (f a b)"
| "ufunc2 f (NpFloat a) (PyFloat b) = as_np (f a b)"
| "ufunc2 f (NpFloat a) (NpFloat b) = as_np (f a b)"

text \<open>
  A Python binary operator (\<^verbatim>\<open>+ - *\<close>): two Python floats give a Python float; as soon
  as numpy is involved it is the ufunc.
\<close>

fun operator2 :: "(real \<Rightarrow> real \<Rightarrow> error + real) \<Rightarrow> val \<Rightarrow> val \<Rightarrow> res" where
  "operator2 f (PyFloat a) (PyFloat b) = as_py (f a b)"
| "operator2 f a b = ufunc2 f a b"

text \<open>A numpy unary ufunc (\<^verbatim>\<open>np.log\<close>, \<^verbatim>\<open>np.sqrt\<close>, \<^verbatim>\<open>np.exp\<close>, \<^verbatim>\<open>norm.cdf\<close>).\<close>

fun ufunc1 :: "(real \<Rightarrow> error + real) \<Rightarrow> val \<Rightarrow> res" where
  "ufunc1 f (PyFloat a) = as_np (f a)"
| "ufunc1 f (NpFloat a) = as_np (f a)"
| "ufunc1 f (NdArray xs) = as_array (collect (map f xs))"

text \<open>
  Operands are evaluated left to right, and an exception in an operand leaves the
  expression at once.
\<close>

definition lift1 :: "(val \<Rightarrow> res) \<Rightarrow> res \<Rightarrow> res" where
  "lift1 g a = (case a of Inl e \<Rightarrow> Inl e | Inr x \<Rightarrow> g x)"

definition lift2 :: "(val \<Rightarrow> val \<Rightarrow> res) \<Rightarrow> res \<Rightarrow> res \<Rightarrow> res" where
  "lift2 g a b =
     (case a of Inl e \<Rightarrow> Inl e
      | Inr x \<Rightarrow> (case b of Inl e \<Rightarrow> Inl e | Inr y \<Rightarrow> g x y))"

subsection \<open>The operations the program uses\<close>

definition add :: "res \<Rightarrow> res \<Rightarrow> res" where
  "add = lift2 (operator2 (\<lambda>x y. Inr (x + y)))"

definition sub :: "res \<Rightarrow> res \<Rightarrow> res" where
  "sub = lift2 (operator2 (\<lambda>x y. Inr (x - y)))"

definition mul :: "res \<Rightarrow> res \<Rightarrow> res" where
  "mul = lift2 (operator2 (\<lambda>x y. Inr (x * y)))"

text \<open>\<^verbatim>\<open>-r\<close> keeps the kind of its operand.\<close>

fun neg_val :: "val \<Rightarrow> res" where
  "neg_val (PyFloat a) = Inr (PyFloat (- a))"
| "neg_val (NpFloat a) = Inr (NpFloat (- a))"
| "neg_val (NdArray xs) = Inr (NdArray (map uminus xs))"

definition neg :: "res \<Rightarrow> res" where
  "neg = lift1 neg_val"

text \<open>\<^verbatim>\<open>sigma ** 2\<close>, the exponent being the Python integer 2.\<close>

fun square_val :: "val \<Rightarrow> res" where
  "square_val (PyFloat a) = Inr (PyFloat (a ^ 2))"
| "square_val (NpFloat a) = Inr (NpFloat (a ^ 2))"
| "square_val (NdArray xs) = Inr (NdArray (map (\<lambda>x. x ^ 2) xs))"

definition square :: "res \<Rightarrow> res" where
  "square = lift1 square_val"

definition div_elem :: "real \<Rightarrow> real \<Rightarrow> error + real" where
  "div_elem x y = (if y = 0 then Inl NonFinite else Inr (x / y))"

text \<open>
  \<^verbatim>\<open>a / b\<close>: Python's own float division raises on a zero divisor; numpy's does not.
\<close>

fun truediv_val :: "val \<Rightarrow> val \<Rightarrow> res" where
  "truediv_val (PyFloat a) (PyFloat b) =
     (if b = 0 then Inl ZeroDivisionError else Inr (PyFloat (a / b)))"
| "truediv_val a b = ufunc2 div_elem a b"

definition truediv :: "res \<Rightarrow> res \<Rightarrow> res" where
  "truediv = lift2 truediv_val"

definition log_elem :: "real \<Rightarrow> error + real" where
  "log_elem x = (if 0 < x then Inr (ln x) else Inl NonFinite)"

definition np_log :: "res \<Rightarrow> res" where
  "np_log = lift1 (ufunc1 log_elem)"

definition sqrt_elem :: "real \<Rightarrow> error + real" where
  "sqrt_elem x = (if 0 \<le> x then Inr (sqrt x) else Inl NonFinite)"

definition np_sqrt :: "res \<Rightarrow> res" where
  "np_sqrt = lift1 (ufunc1 sqrt_elem)"

definition np_exp :: "res \<Rightarrow> res" where
  "np_exp = lift1 (ufunc1 (\<lambda>x. Inr (exp x)))"

definition np_maximum :: "res \<Rightarrow> res \<Rightarrow> res" where
  "np_maximum = lift2 (ufunc2 (\<lambda>x y. Inr (max x y)))"

text \<open>\<^verbatim>\<open>T <= 1e-5\<close> for a scalar \<open>T\<close>.\<close>

fun le_scalar :: "val \<Rightarrow> real \<Rightarrow> bool" where
  "le_scalar (PyFloat a) c = (a \<le> c)"
| "le_scalar (NpFloat a) c = (a \<le> c)"
| "le_scalar (NdArray xs) c = False"

section \<open>The standard normal distribution function\<close>

text \<open>
  \<^verbatim>\<open>scipy.stats.norm.cdf\<close> is library code: the distribution function of the standard
  normal law, \<open>\<Phi>(x) = 1 / \<surd>(2 \<pi>) \<integral> exp (- t\<^sup>2 / 2) dt\<close> over \<open>t \<le> x\<close>. Integrating the
  exponential series term by term from 0 gives the primitive \<open>gauss_prim\<close> of
  \<open>exp (- t\<^sup>2 / 2)\<close>, and \<open>\<Phi>(x) = 1 / 2 + gauss_prim x / \<surd>(2 \<pi>)\<close>.
\<close>

definition gauss_coeff :: "nat \<Rightarrow> real" where
  "gauss_coeff m = (- 1) ^ m / (2 ^ m * fact m * real (2 * m + 1))"

definition gauss_prim :: "real \<Rightarrow> real" where
  "gauss_prim x = (\<Sum>m. gauss_coeff m * x ^ (2 * m + 1))"

definition Phi :: "real \<Rightarrow> real" where
  "Phi x = 1 / 2 + gauss_prim x / sqrt (2 * pi)"

text \<open>
  Three auxiliary notions for the analysis of \<open>\<Phi>\<close>: the supremum of the primitive
  (the integral of \<open>exp (- t\<^sup>2 / 2)\<close> over the positive half-line), the primitive of
  \<open>cos\<^sup>k\<close> that vanishes at 0, given by the reduction formula, and its value at
  \<open>\<pi> / 2\<close>, the Wallis integral.
\<close>

definition gauss_half :: real where
  "gauss_half = Sup (range gauss_prim)"

fun cos_prim :: "nat \<Rightarrow> real \<Rightarrow> real" where
  "cos_prim 0 t = t"
| "cos_prim (Suc 0) t = sin t"
| "cos_prim (Suc (Suc k)) t =
     cos t ^ Suc k * sin t / real (k + 2) + real (k + 1) / real (k + 2) * cos_prim k t"

definition wallis :: "nat \<Rightarrow> real" where
  "wallis k = cos_prim k (pi / 2)"

definition norm_cdf :: "res \<Rightarrow> res" where
  "norm_cdf = lift1 (ufunc1 (\<lambda>x. Inr (Phi x)))"

section \<open>The pricing function\<close>

text \<open>
  \<^verbatim>\<open>
  def black_scholes_call(S, K, T, r, sigma):
      if np.isscalar(T):
          if T <= 1e-5:
              return np.maximum(S - K, 0)
      d1 = (np.log(S / K) + (r + 0.5 * sigma ** 2) * T) / (sigma * np.sqrt(T))
      d2 = d1 - sigma * np.sqrt(T)
      call_price = (S * norm.cdf(d1) - K * np.exp(-r * T) * norm.cdf(d2))
      return call_price
  \<close>
  The integer literal 0 and the float literal 0.5 behave as Python floats in mixed
  arithmetic.
\<close>

definition threshold :: real where
  "threshold = 1 / 100000"

definition black_scholes_call :: "val \<Rightarrow> val \<Rightarrow> val \<Rightarrow> val \<Rightarrow> val \<Rightarrow> res" where
  "black_scholes_call S K T r sigma =
     (if np_isscalar T \<and> le_scalar T threshold
      then np_maximum (sub (Inr S) (Inr K)) (Inr (PyFloat 0))
      else
        let d1 = truediv
                   (add (np_log (truediv (Inr S) (Inr K)))
                        (mul (add (Inr r) (mul (Inr (PyFloat (1 / 2))) (square (Inr sigma))))
                             (Inr T)))
                   (mul (Inr sigma) (np_sqrt (Inr T)));
            d2 = sub d1 (mul (Inr sigma) (np_sqrt (Inr T)));
            call_price = sub (mul (Inr S) (norm_cdf d1))
                             (mul (mul (Inr K) (np_exp (mul (neg (Inr r)) (Inr T))))
                                  (norm_cdf d2))
        in call_price)"

section \<open>The strategy evaluator\<close>

text \<open>
  \<^verbatim>\<open>np.linspace(start, stop, num)\<close> with its default \<^verbatim>\<open>endpoint=True\<close>: the step is
  \<^verbatim>\<open>(stop - start) / (num - 1)\<close>, the points are \<^verbatim>\<open>arange(0, num) * step + start\<close>, and
  the last point is then overwritten with \<^verbatim>\<open>stop\<close>.
\<close>

definition np_linspace :: "real \<Rightarrow> real \<Rightarrow> nat \<Rightarrow> real list" where
  "np_linspace start stop num =
     (let step = (stop - start) / real (num - 1);
          y = map (\<lambda>i. real i * step + start) [0..<num]
      in if 1 < num then y[num - 1 := stop] else y)"

text \<open>
  What \<^verbatim>\<open>update_plot\<close> hands to the chart: the entry cost shown in the title, and the
  data of the two curves.
\<close>

record valuation =
  entry_cost :: val
  x_domain :: val
  y_exp :: val
  y_cur :: val

definition bind_res :: "error + 'a \<Rightarrow> ('a \<Rightarrow> error + 'b) \<Rightarrow> error + 'b" where
  "bind_res a g = (case a of Inl e \<Rightarrow> Inl e | Inr x \<Rightarrow> g x)"

text \<open>
  The computation of \<^verbatim>\<open>update_plot\<close>, from the strikes to the two curves, statement by
  statement, as a function of the six parameters the method reads from its widgets:
  \<^verbatim>\<open>
  K_low = K_mid - width
  K_high = K_mid + width
  cost_low = black_scholes_call(S0, K_low, T, r, sigma)
  cost_mid = black_scholes_call(S0, K_mid, T, r, sigma)
  cost_high = black_scholes_call(S0, K_high, T, r, sigma)
  entry_cost = (cost_low + cost_high) - (2 * cost_mid)
  x = np.linspace(S0 * 0.8, S0 * 1.2, 300)
  val_low_exp = np.maximum(x - K_low, 0)
  val_mid_exp = np.maximum(x - K_mid, 0)
  val_high_exp = np.maximum(x - K_high, 0)
  strategy_val_exp = (val_low_exp + val_high_exp) - (2 * val_mid_exp)
  y_exp = strategy_val_exp - entry_cost
  val_low_cur = black_scholes_call(x, K_low, T, r, sigma)
  val_mid_cur = black_scholes_call(x, K_mid, T, r, sigma)
  val_high_cur = black_scholes_call(x, K_high, T, r, sigma)
  strategy_val_cur = (val_low_cur + val_high_cur) - (2 * val_mid_cur)
  y_cur = strategy_val_cur - entry_cost
  \<close>
  All six parameters are Python floats. The integer literals 0 and 2 behave as Python
  floats in mixed arithmetic.
\<close>

definition evaluate_butterfly ::
  "real \<Rightarrow> real \<Rightarrow> real \<Rightarrow> real \<Rightarrow> real \<Rightarrow> real \<Rightarrow> error + valuation" where
  "evaluate_butterfly S0 sigma T r K_mid width =
     (let K_low = K_mid - width;
          K_high = K_mid + width;
          price = (\<lambda>S K. black_scholes_call S (PyFloat K) (PyFloat T) (PyFloat r) (PyFloat sigma));
          intrinsic = (\<lambda>S K. np_maximum (sub (Inr S) (Inr (PyFloat K))) (Inr (PyFloat 0)));
          combine = (\<lambda>lo mid hi. sub (add (Inr lo) (Inr hi)) (mul (Inr (PyFloat 2)) (Inr mid)))
      in
      bind_res (price (PyFloat S0) K_low) (\<lambda>cost_low.
      bind_res (price (PyFloat S0) K_mid) (\<lambda>cost_mid.
      bind_res (price (PyFloat S0) K_high) (\<lambda>cost_high.
      bind_res (combine cost_low cost_mid cost_high) (\<lambda>entry_cost.
      let x = NdArray (np_linspace (S0 * (8 / 10)) (S0 * (12 / 10)) 300) in
      bind_res (intrinsic x K_low) (\<lambda>val_low_exp.
      bind_res (intrinsic x K_mid) (\<lambda>val_mid_exp.
      bind_res (intrinsic x K_high) (\<lambda>val_high_exp.
      bind_res (combine val_low_exp val_mid_exp val_high_exp) (\<lambda>strategy_val_exp.
      bind_res (sub (Inr strategy_val_exp) (Inr entry_cost)) (\<lambda>y_exp.
      bind_res (price x K_low) (\<lambda>val_low_cur.
      bind_res (price x K_mid) (\<lambda>val_mid_cur.
      bind_res (price x K_high) (\<lambda>val_high_cur.
      bind_res (combine val_low_cur val_mid_cur val_high_cur) (\<lambda>strategy_val_cur.
      bind_res (sub (Inr strategy_val_cur) (Inr entry_cost)) (\<lambda>y_cur.
      Inr \<lparr>entry_cost = entry_cost, x_domain = x, y_exp = y_exp, y_cur = y_cur\<rparr>)))))))))))))))"

text \<open>
  The widgets \<^verbatim>\<open>update_plot\<close> reads: the spin boxes hold floats, the sliders
  integers.
\<close>

record widgets =
  spin_price :: real
  slider_iv :: int
  slider_days :: int
  spin_rate :: real
  spin_atm :: real
  spin_width :: real

text \<open>
  \<^verbatim>\<open>
  def update_plot(self):
      S0 = self.spin_price.value()
      sigma = self.slider_iv.value() / 100.0
      days = self.slider_days.value()
      T = days / 365.0
      r = self.spin_rate.value() / 100.0
      K_mid = self.spin_atm.value()
      width = self.spin_width.value()
      ...
  \<close>
\<close>

definition update_plot :: "widgets \<Rightarrow> error + valuation" where
  "update_plot w =
     (let S0 = spin_price w;
          sigma = real_of_int (slider_iv w) / 100;
          days = slider_days w;
          T = real_of_int days / 365;
          r = spin_rate w / 100;
          K_mid = spin_atm w;
          width = spin_width w
      in evaluate_butterfly S0 sigma T r K_mid width)"

section \<open>The specification's formulas\<close>

text \<open>
  The closed form as the specification words it: \<open>d1 = (ln (S / K) + (r + \<sigma>\<^sup>2 / 2) T) / (\<sigma> \<surd>T)\<close>,
  \<open>d2 = d1 - \<sigma> \<surd>T\<close>, price \<open>S \<Phi>(d1) - K e\<^sup>-\<^sup>r\<^sup>T \<Phi>(d2)\<close>.
\<close>

definition bs_d1 :: "real \<Rightarrow> real \<Rightarrow> real \<Rightarrow> real \<Rightarrow> real \<Rightarrow> real" where
  "bs_d1 S K T r sigma = (ln (S / K) + (r + sigma\<^sup>2 / 2) * T) / (sigma * sqrt T)"

definition bs_d2 :: "real \<Rightarrow> real \<Rightarrow> real \<Rightarrow> real \<Rightarrow> real \<Rightarrow> real" where
  "bs_d2 S K T r sigma = bs_d1 S K T r sigma - sigma * sqrt T"

definition bs_closed_form :: "real \<Rightarrow> real \<Rightarrow> real \<Rightarrow> real \<Rightarrow> real \<Rightarrow> real" where
  "bs_closed_form S K T r sigma =
     S * Phi (bs_d1 S K T r sigma) - K * exp (- (r * T)) * Phi (bs_d2 S K T r sigma)"

text \<open>The intrinsic value of a call, \<open>max (S - K, 0)\<close>.\<close>

definition intrinsic_value :: "real \<Rightarrow> real \<Rightarrow> real" where
  "intrinsic_value S K = max (S - K) 0"

text \<open>
  The butterfly's payoff at expiration at spot \<open>x\<close>:
  \<open>max (x - K_low, 0) + max (x - K_high, 0) - 2 max (x - K_mid, 0)\<close>.
\<close>

definition butterfly_intrinsic :: "real \<Rightarrow> real \<Rightarrow> real \<Rightarrow> real" where
  "butterfly_intrinsic K_mid width x =
     intrinsic_value x (K_mid - width) + intrinsic_value x (K_mid + width)
       - 2 * intrinsic_value x K_mid"

text \<open>
  The specification's \<open>price_call\<close> for a scalar \<open>T\<close>: the intrinsic value at or below
  the threshold, the closed form above it.
\<close>

definition price_call :: "real \<Rightarrow> real \<Rightarrow> real \<Rightarrow> real \<Rightarrow> real \<Rightarrow> real" where
  "price_call S K T r sigma =
     (if T \<le> threshold then intrinsic_value S K else bs_closed_form S K T r sigma)"

text \<open>
  A condition under which every intermediate value of a call with scalar arguments is a
  real number, so that the embedding follows the call to the price it returns: at or
  below the threshold always; above it when the quotient \<open>S / K\<close> exists and has a
  logarithm and \<open>\<sigma> \<surd>T\<close> is not zero. Outside it numpy passes through an infinity or a
  nan and may still return a finite price; the embedding does not say which.
\<close>

definition has_price :: "real \<Rightarrow> real \<Rightarrow> real \<Rightarrow> real \<Rightarrow> bool" where
  "has_price S K T sigma = (T \<le> threshold \<or> (K \<noteq> 0 \<and> 0 < S / K \<and> sigma \<noteq> 0))"

text \<open>
  The butterfly's value at spot \<open>x\<close> before expiration: long one call at each wing, short
  two calls at the centre.
\<close>

definition butterfly_value :: "real \<Rightarrow> real \<Rightarrow> real \<Rightarrow> real \<Rightarrow> real \<Rightarrow> real \<Rightarrow> real" where
  "butterfly_value K_mid width T r sigma x =
     price_call x (K_mid - width) T r sigma + price_call x (K_mid + width) T r sigma
       - 2 * price_call x K_mid T r sigma"

text \<open>The price sweep of \<^verbatim>\<open>update_plot\<close>: 300 points from \<open>0.8 S0\<close> to \<open>1.2 S0\<close>.\<close>

definition sweep :: "real \<Rightarrow> real list" where
  "sweep S0 = np_linspace (S0 * (8 / 10)) (S0 * (12 / 10)) 300"

section \<open>Evaluating the operations\<close>

lemma collect_map_Inr: "collect (map (\<lambda>x. Inr (g x)) xs) = Inr (map g xs)"
  by (induction xs) simp_all

lemma collect_map_eq:
  "(\<And>x. x \<in> set xs \<Longrightarrow> f x = Inr (g x)) \<Longrightarrow> collect (map f xs) = Inr (map g xs)"
  by (induction xs) simp_all

lemma lift1_Inr: "lift1 g (Inr x) = g x"
  by (simp add: lift1_def)

lemma lift2_Inr: "lift2 g (Inr x) (Inr y) = g x y"
  by (simp add: lift2_def)

lemma lift1_Inl: "lift1 g (Inl e) = Inl e"
  by (simp add: lift1_def)

lemma lift2_Inl: "lift2 g (Inl e) b = Inl e" "lift2 g (Inr x) (Inl e) = Inl e"
  by (simp_all add: lift2_def)

lemma collect_map_cases:
  "(\<And>x. x \<in> set xs \<Longrightarrow> f x = (if P x then Inl e else Inr (g x))) \<Longrightarrow>
   collect (map f xs) = (if \<exists>x\<in>set xs. P x then Inl e else Inr (map g xs))"
  by (induction xs) (auto split: sum.splits)

lemma collect_map2_Inr:
  "length xs = length ys \<Longrightarrow> collect (map2 (\<lambda>x y. Inr (g x y)) xs ys) = Inr (map2 g xs ys)"
  by (induction xs ys rule: list_induct2) simp_all

lemma broadcast_same_length:
  "length xs = length ys \<Longrightarrow>
   broadcast (\<lambda>x y. Inr (g x y)) xs ys = Inr (NdArray (map2 g xs ys))"
  by (simp add: broadcast_def as_array_def collect_map2_Inr)

lemmas scalar_defs = add_def sub_def mul_def neg_def square_def truediv_def np_log_def np_sqrt_def
  np_exp_def np_maximum_def norm_cdf_def lift1_Inr lift2_Inr lift1_Inl lift2_Inl as_np_def as_py_def

lemmas array_defs = add_def sub_def mul_def truediv_def np_log_def np_maximum_def norm_cdf_def
  lift1_Inr lift2_Inr as_array_def collect_map_Inr comp_def

lemma shortcut_scalar:
  "T \<le> threshold \<Longrightarrow>
   black_scholes_call (PyFloat S) (PyFloat K) (PyFloat T) r sigma = Inr (NpFloat (intrinsic_value S K))"
  by (simp add: black_scholes_call_def scalar_defs intrinsic_value_def)

lemma intrinsic_array:
  "np_maximum (sub (Inr (NdArray xs)) (Inr (PyFloat K))) (Inr (PyFloat 0))
     = Inr (NdArray (map (\<lambda>x. intrinsic_value x K) xs))"
  by (simp add: array_defs intrinsic_value_def)

lemma shortcut_array:
  "T \<le> threshold \<Longrightarrow>
   black_scholes_call (NdArray xs) (PyFloat K) (PyFloat T) r sigma = Inr (NdArray (map (\<lambda>x. intrinsic_value x K) xs))"
  by (simp add: black_scholes_call_def intrinsic_array)

lemma scalar_call:
  "black_scholes_call (PyFloat S) (PyFloat K) (PyFloat T) (PyFloat r) (PyFloat sigma) =
     (if T \<le> threshold then Inr (NpFloat (intrinsic_value S K))
      else if K = 0 then Inl ZeroDivisionError
      else if S / K \<le> 0 \<or> sigma = 0 then Inl NonFinite
      else Inr (NpFloat (bs_closed_form S K T r sigma)))"
proof (cases "T \<le> threshold")
  case True
  then show ?thesis by (simp add: shortcut_scalar)
next
  case False
  then have T: "0 < T" by (simp add: threshold_def)
  show ?thesis using False T
    by (simp add: black_scholes_call_def scalar_defs Let_def log_elem_def sqrt_elem_def div_elem_def
        bs_closed_form_def bs_d1_def bs_d2_def algebra_simps)
qed

lemma map2_same: "map2 f (map g xs) (map h xs) = map (\<lambda>x. f (g x) (h x)) xs"
  by (induction xs) simp_all

lemma formula_array:
  assumes pos: "\<And>s. s \<in> set xs \<Longrightarrow> 0 < s / K" and K: "K \<noteq> 0" and sg: "sigma \<noteq> 0"
    and thr: "threshold < T"
  shows "black_scholes_call (NdArray xs) (PyFloat K) (PyFloat T) (PyFloat r) (PyFloat sigma)
     = Inr (NdArray (map (\<lambda>s. bs_closed_form s K T r sigma) xs))"
proof -
  have T: "0 < T" using thr by (simp add: threshold_def)
  then have nz: "sigma * sqrt T \<noteq> 0" using sg by simp
  define a where "a = sigma * sqrt T"
  define m where "m = (r + 1 / 2 * sigma\<^sup>2) * T"
  have a: "a \<noteq> 0" using nz by (simp add: a_def)
  have q: "truediv (Inr (NdArray xs)) (Inr (PyFloat K)) = Inr (NdArray (map (\<lambda>x. x / K) xs))"
    using K by (simp add: array_defs div_elem_def)
  have "collect (map (\<lambda>x. log_elem (x / K)) xs) = Inr (map (\<lambda>x. ln (x / K)) xs)"
    using pos by (intro collect_map_eq) (simp add: log_elem_def)
  then have l: "np_log (truediv (Inr (NdArray xs)) (Inr (PyFloat K)))
      = Inr (NdArray (map (\<lambda>x. ln (x / K)) xs))"
    unfolding q by (simp add: np_log_def lift1_Inr as_array_def comp_def)
  have mm: "mul (add (Inr (PyFloat r)) (mul (Inr (PyFloat (1 / 2))) (square (Inr (PyFloat sigma)))))
                (Inr (PyFloat T)) = Inr (PyFloat m)"
    by (simp add: scalar_defs m_def)
  have aa: "mul (Inr (PyFloat sigma)) (np_sqrt (Inr (PyFloat T))) = Inr (NpFloat a)"
    using T by (simp add: scalar_defs sqrt_elem_def a_def)
  have num: "add (Inr (NdArray (map (\<lambda>x. ln (x / K)) xs))) (Inr (PyFloat m))
      = Inr (NdArray (map (\<lambda>x. ln (x / K) + m) xs))"
    by (simp add: array_defs)
  have d1: "truediv (Inr (NdArray (map (\<lambda>x. ln (x / K) + m) xs))) (Inr (NpFloat a))
      = Inr (NdArray (map (\<lambda>x. bs_d1 x K T r sigma) xs))"
    using a by (simp add: array_defs div_elem_def) (simp add: bs_d1_def a_def m_def)
  have d2: "sub (Inr (NdArray (map (\<lambda>x. bs_d1 x K T r sigma) xs))) (Inr (NpFloat a))
      = Inr (NdArray (map (\<lambda>x. bs_d2 x K T r sigma) xs))"
    by (simp add: array_defs) (simp add: bs_d2_def a_def)
  have c1: "norm_cdf (Inr (NdArray (map (\<lambda>x. bs_d1 x K T r sigma) xs)))
      = Inr (NdArray (map (\<lambda>x. Phi (bs_d1 x K T r sigma)) xs))"
    by (simp add: array_defs)
  have c2: "norm_cdf (Inr (NdArray (map (\<lambda>x. bs_d2 x K T r sigma) xs)))
      = Inr (NdArray (map (\<lambda>x. Phi (bs_d2 x K T r sigma)) xs))"
    by (simp add: array_defs)
  have s1: "mul (Inr (NdArray xs)) (Inr (NdArray (map (\<lambda>x. Phi (bs_d1 x K T r sigma)) xs)))
      = Inr (NdArray (map (\<lambda>x. x * Phi (bs_d1 x K T r sigma)) xs))"
    using map2_same [of "(*)" "\<lambda>x. x" xs "\<lambda>x. Phi (bs_d1 x K T r sigma)"]
    by (simp add: mul_def lift2_Inr broadcast_same_length)
  have k1: "mul (Inr (PyFloat K)) (np_exp (mul (neg (Inr (PyFloat r))) (Inr (PyFloat T))))
      = Inr (NpFloat (K * exp (- (r * T))))"
    by (simp add: scalar_defs)
  have s2: "mul (Inr (NpFloat (K * exp (- (r * T)))))
                (Inr (NdArray (map (\<lambda>x. Phi (bs_d2 x K T r sigma)) xs)))
      = Inr (NdArray (map (\<lambda>x. K * exp (- (r * T)) * Phi (bs_d2 x K T r sigma)) xs))"
    by (simp add: array_defs)
  have fin: "sub (Inr (NdArray (map (\<lambda>x. x * Phi (bs_d1 x K T r sigma)) xs)))
                 (Inr (NdArray (map (\<lambda>x. K * exp (- (r * T)) * Phi (bs_d2 x K T r sigma)) xs)))
      = Inr (NdArray (map (\<lambda>s. bs_closed_form s K T r sigma) xs))"
    by (simp add: sub_def lift2_Inr broadcast_same_length map2_same bs_closed_form_def)
  show ?thesis
    unfolding black_scholes_call_def Let_def
    using thr by (simp add: l mm aa num d1 d2 c1 c2 s1 k1 s2 fin)
qed

lemma array_T_call:
  "black_scholes_call (PyFloat S) (PyFloat K) (NdArray ts) (PyFloat r) (PyFloat sigma) =
     (if K = 0 then Inl ZeroDivisionError
      else if S / K \<le> 0 then Inl NonFinite
      else if \<exists>t\<in>set ts. t < 0 \<or> sigma * sqrt t = 0 then Inl NonFinite
      else Inr (NdArray (map (\<lambda>t. bs_closed_form S K t r sigma) ts)))"
proof -
  consider (zero) "K = 0" | (neg) "K \<noteq> 0" "S / K \<le> 0" | (pos) "K \<noteq> 0" "0 < S / K"
    by fastforce
  then show ?thesis
  proof cases
    case zero
    then show ?thesis
      by (simp add: black_scholes_call_def Let_def scalar_defs)
  next
    case neg
    then show ?thesis
      by (simp add: black_scholes_call_def Let_def scalar_defs log_elem_def)
  next
    case pos
    define m where "m = r + 1 / 2 * sigma\<^sup>2"
    define l where "l = ln (S / K)"
    define d1 where "d1 = (\<lambda>t. (l + m * t) / (sigma * sqrt t))"
    have l: "np_log (truediv (Inr (PyFloat S)) (Inr (PyFloat K))) = Inr (NpFloat l)"
      using pos by (simp add: scalar_defs log_elem_def l_def)
    have mm: "mul (add (Inr (PyFloat r)) (mul (Inr (PyFloat (1 / 2))) (square (Inr (PyFloat sigma)))))
                (Inr (NdArray ts)) = Inr (NdArray (map (\<lambda>t. m * t) ts))"
      by (simp add: scalar_defs m_def as_array_def collect_map_Inr)
    have num: "add (Inr (NpFloat l)) (Inr (NdArray (map (\<lambda>t. m * t) ts)))
        = Inr (NdArray (map (\<lambda>t. l + m * t) ts))"
      by (simp add: array_defs)
    have "collect (map sqrt_elem ts) =
        (if \<exists>t\<in>set ts. t < 0 then Inl NonFinite else Inr (map sqrt ts))"
      by (rule collect_map_cases) (simp add: sqrt_elem_def not_le)
    then have sq: "np_sqrt (Inr (NdArray ts)) =
        (if \<exists>t\<in>set ts. t < 0 then Inl NonFinite else Inr (NdArray (map sqrt ts)))"
      by (simp add: np_sqrt_def lift1_Inr as_array_def)
    have den: "mul (Inr (PyFloat sigma)) (np_sqrt (Inr (NdArray ts))) =
        (if \<exists>t\<in>set ts. t < 0 then Inl NonFinite
         else Inr (NdArray (map (\<lambda>t. sigma * sqrt t) ts)))"
      unfolding sq by (simp add: mul_def lift2_Inl lift2_Inr as_array_def collect_map_Inr comp_def)
    show ?thesis
    proof (cases "\<exists>t\<in>set ts. t < 0")
      case True
      then show ?thesis using pos
        unfolding black_scholes_call_def Let_def l mm num den
        by (auto simp add: scalar_defs)
    next
      case nonneg: False
      then have den': "mul (Inr (PyFloat sigma)) (np_sqrt (Inr (NdArray ts))) =
          Inr (NdArray (map (\<lambda>t. sigma * sqrt t) ts))"
        using den by simp
      have "collect (map (\<lambda>t. div_elem (l + m * t) (sigma * sqrt t)) ts) =
          (if \<exists>t\<in>set ts. sigma * sqrt t = 0 then Inl NonFinite else Inr (map d1 ts))"
        by (rule collect_map_cases) (simp add: div_elem_def d1_def)
      then have quot: "truediv (Inr (NdArray (map (\<lambda>t. l + m * t) ts)))
            (Inr (NdArray (map (\<lambda>t. sigma * sqrt t) ts))) =
          (if \<exists>t\<in>set ts. sigma * sqrt t = 0 then Inl NonFinite else Inr (NdArray (map d1 ts)))"
        by (simp add: truediv_def lift2_Inr broadcast_def map2_same as_array_def)
      show ?thesis
      proof (cases "\<exists>t\<in>set ts. sigma * sqrt t = 0")
        case True
        then have "truediv (Inr (NdArray (map (\<lambda>t. l + m * t) ts)))
            (Inr (NdArray (map (\<lambda>t. sigma * sqrt t) ts))) = Inl NonFinite"
          using quot by simp
        then show ?thesis using pos nonneg True
          unfolding black_scholes_call_def Let_def l mm num den'
          by (simp add: scalar_defs)
      next
        case nz: False
        have d2: "sub (Inr (NdArray (map d1 ts))) (Inr (NdArray (map (\<lambda>t. sigma * sqrt t) ts)))
            = Inr (NdArray (map (\<lambda>t. d1 t - sigma * sqrt t) ts))"
          by (simp add: sub_def lift2_Inr broadcast_same_length map2_same)
        have c1: "norm_cdf (Inr (NdArray (map d1 ts))) = Inr (NdArray (map (\<lambda>t. Phi (d1 t)) ts))"
          by (simp add: array_defs)
        have c2: "norm_cdf (Inr (NdArray (map (\<lambda>t. d1 t - sigma * sqrt t) ts)))
            = Inr (NdArray (map (\<lambda>t. Phi (d1 t - sigma * sqrt t)) ts))"
          by (simp add: array_defs)
        have s1: "mul (Inr (PyFloat S)) (Inr (NdArray (map (\<lambda>t. Phi (d1 t)) ts)))
            = Inr (NdArray (map (\<lambda>t. S * Phi (d1 t)) ts))"
          by (simp add: array_defs)
        have k1: "mul (Inr (PyFloat K)) (np_exp (mul (neg (Inr (PyFloat r))) (Inr (NdArray ts))))
            = Inr (NdArray (map (\<lambda>t. K * exp (- (r * t))) ts))"
          by (simp add: array_defs neg_def np_exp_def)
        have s2: "mul (Inr (NdArray (map (\<lambda>t. K * exp (- (r * t))) ts)))
                      (Inr (NdArray (map (\<lambda>t. Phi (d1 t - sigma * sqrt t)) ts)))
            = Inr (NdArray (map (\<lambda>t. K * exp (- (r * t)) * Phi (d1 t - sigma * sqrt t)) ts))"
          by (simp add: mul_def lift2_Inr broadcast_same_length map2_same)
        have fin: "sub (Inr (NdArray (map (\<lambda>t. S * Phi (d1 t)) ts)))
              (Inr (NdArray (map (\<lambda>t. K * exp (- (r * t)) * Phi (d1 t - sigma * sqrt t)) ts)))
            = Inr (NdArray (map (\<lambda>t. bs_closed_form S K t r sigma) ts))"
          by (simp add: sub_def lift2_Inr broadcast_same_length map2_same bs_closed_form_def
              bs_d1_def bs_d2_def d1_def l_def m_def)
        have quot': "truediv (Inr (NdArray (map (\<lambda>t. l + m * t) ts)))
            (Inr (NdArray (map (\<lambda>t. sigma * sqrt t) ts))) = Inr (NdArray (map d1 ts))"
          using quot nz by simp
        show ?thesis using pos nonneg nz
          unfolding black_scholes_call_def Let_def l mm num den' quot'
          by (simp add: d2 c1 c2 s1 k1 s2 fin)
      qed
    qed
  qed
qed


lemma scalar_price:
  "black_scholes_call (PyFloat S) (PyFloat K) (PyFloat T) (PyFloat r) (PyFloat sigma) =
     (if has_price S K T sigma then Inr (NpFloat (price_call S K T r sigma))
      else if K = 0 then Inl ZeroDivisionError else Inl NonFinite)"
  by (auto simp add: scalar_call has_price_def price_call_def not_le)

section \<open>The normal distribution function: analysis\<close>

subsection \<open>The primitive of the density\<close>

text \<open>
  The series \<open>gauss_prim\<close> converges everywhere and is a primitive of
  \<open>exp (- x\<^sup>2 / 2)\<close>: with \<open>F y = \<Sum> gauss_coeff m y\<^sup>m\<close> it is \<open>x F (x\<^sup>2)\<close>, and
  \<open>F y + 2 y F' y\<close> is the exponential series of \<open>- y / 2\<close>. It is odd, increasing
  and bounded.
\<close>

lemma gauss_coeff_abs: "\<bar>gauss_coeff n\<bar> = 1 / (2 ^ n * fact n * real (2 * n + 1))"
  unfolding gauss_coeff_def abs_divide power_abs by simp

lemma gauss_coeff_bound: "norm (gauss_coeff n * y ^ n) \<le> (\<bar>y\<bar> / 2) ^ n /\<^sub>R fact n"
proof -
  have pos: "0 \<le> \<bar>y\<bar> ^ n / (2 ^ n * fact n)" by simp
  have "norm (gauss_coeff n * y ^ n) = \<bar>gauss_coeff n\<bar> * \<bar>y\<bar> ^ n"
    by (simp add: abs_mult power_abs)
  also have "\<dots> = (\<bar>y\<bar> ^ n / (2 ^ n * fact n)) / real (2 * n + 1)"
    unfolding gauss_coeff_abs by simp
  also have "\<dots> \<le> (\<bar>y\<bar> ^ n / (2 ^ n * fact n)) / 1"
  proof (rule frac_le [OF pos order_refl zero_less_one])
    show "1 \<le> real (2 * n + 1)" by simp
  qed
  also have "\<dots> = (\<bar>y\<bar> / 2) ^ n /\<^sub>R fact n"
    by (simp add: power_divide scaleR_conv_of_real field_simps)
  finally show ?thesis .
qed

lemma gauss_coeff_summable: "summable (\<lambda>m. gauss_coeff m * y ^ m)"
proof (rule summable_comparison_test)
  show "\<exists>N. \<forall>n\<ge>N. norm (gauss_coeff n * y ^ n) \<le> (\<bar>y\<bar> / 2) ^ n /\<^sub>R fact n"
    using gauss_coeff_bound by blast
  show "summable (\<lambda>n. (\<bar>y\<bar> / 2) ^ n /\<^sub>R fact n)"
    using exp_converges [of "\<bar>y\<bar> / 2"] by (rule sums_summable)
qed


lemma gauss_series_deriv:
  "DERIV (\<lambda>y. \<Sum>m. gauss_coeff m * y ^ m) y :> (\<Sum>m. diffs gauss_coeff m * y ^ m)"
  by (rule termdiffs_strong_converges_everywhere) (rule gauss_coeff_summable)

lemma gauss_coeff_exp: "real (2 * m + 1) * gauss_coeff m * y ^ m = (- y / 2) ^ m /\<^sub>R fact m"
proof -
  have "real (2 * m + 1) * gauss_coeff m = (- 1) ^ m / (2 ^ m * fact m)"
    unfolding gauss_coeff_def by simp
  then have "real (2 * m + 1) * gauss_coeff m * y ^ m = (- 1) ^ m / (2 ^ m * fact m) * y ^ m"
    by simp
  also have "\<dots> = ((- 1) * y / 2) ^ m / fact m"
    by (simp only: power_divide power_mult_distrib) simp
  finally show ?thesis by (simp add: scaleR_conv_of_real field_simps)
qed

lemma gauss_series_identity:
  "(\<Sum>m. gauss_coeff m * y ^ m) + 2 * y * (\<Sum>m. diffs gauss_coeff m * y ^ m) = exp (- y / 2)"
proof -
  define f where "f m = 2 * real m * gauss_coeff m * y ^ m" for m
  have s1: "(\<lambda>m. gauss_coeff m * y ^ m) sums (\<Sum>m. gauss_coeff m * y ^ m)"
    using gauss_coeff_summable by (rule summable_sums)
  have "summable (\<lambda>m. diffs gauss_coeff m * y ^ m)"
    by (rule termdiff_converges_all) (rule gauss_coeff_summable)
  then have "(\<lambda>m. diffs gauss_coeff m * y ^ m) sums (\<Sum>m. diffs gauss_coeff m * y ^ m)"
    by (rule summable_sums)
  then have "(\<lambda>m. 2 * y * (diffs gauss_coeff m * y ^ m)) sums
      (2 * y * (\<Sum>m. diffs gauss_coeff m * y ^ m))"
    by (rule sums_mult)
  moreover have "2 * y * (diffs gauss_coeff m * y ^ m) = f (Suc m)" for m
    by (simp add: f_def diffs_def)
  ultimately have "(\<lambda>m. f (Suc m)) sums (2 * y * (\<Sum>m. diffs gauss_coeff m * y ^ m))"
    by simp
  then have "f sums (2 * y * (\<Sum>m. diffs gauss_coeff m * y ^ m) + f 0)"
    by (simp only: sums_Suc_iff)
  then have s2: "f sums (2 * y * (\<Sum>m. diffs gauss_coeff m * y ^ m))"
    by (simp add: f_def)
  have "(\<lambda>m. gauss_coeff m * y ^ m + f m) sums
      ((\<Sum>m. gauss_coeff m * y ^ m) + 2 * y * (\<Sum>m. diffs gauss_coeff m * y ^ m))"
    using s1 s2 by (rule sums_add)
  moreover have "gauss_coeff m * y ^ m + f m = (- y / 2) ^ m /\<^sub>R fact m" for m
  proof -
    have "gauss_coeff m * y ^ m + f m = real (2 * m + 1) * gauss_coeff m * y ^ m"
      by (simp add: f_def algebra_simps)
    then show ?thesis by (simp only: gauss_coeff_exp)
  qed
  ultimately have "(\<lambda>m. (- y / 2) ^ m /\<^sub>R fact m) sums
      ((\<Sum>m. gauss_coeff m * y ^ m) + 2 * y * (\<Sum>m. diffs gauss_coeff m * y ^ m))"
    by simp
  then show ?thesis
    using exp_converges [of "- y / 2"] by (rule sums_unique2)
qed

lemma gauss_prim_factor: "gauss_prim x = x * (\<Sum>m. gauss_coeff m * (x\<^sup>2) ^ m)"
proof -
  have "gauss_coeff m * x ^ (2 * m + 1) = x * (gauss_coeff m * (x\<^sup>2) ^ m)" for m
    by (simp add: power_mult)
  then have "gauss_prim x = (\<Sum>m. x * (gauss_coeff m * (x\<^sup>2) ^ m))"
    by (simp only: gauss_prim_def)
  also have "\<dots> = x * (\<Sum>m. gauss_coeff m * (x\<^sup>2) ^ m)"
    using gauss_coeff_summable by (rule suminf_mult)
  finally show ?thesis .
qed

lemma gauss_prim_deriv: "DERIV gauss_prim x :> exp (- (x\<^sup>2) / 2)"
proof -
  define F where "F y = (\<Sum>m. gauss_coeff m * y ^ m)" for y :: real
  define D where "D y = (\<Sum>m. diffs gauss_coeff m * y ^ m)" for y :: real
  have F: "DERIV F y :> D y" for y
    unfolding F_def D_def by (rule gauss_series_deriv)
  have "DERIV (\<lambda>x. x * F (x\<^sup>2)) x :> 1 * F (x\<^sup>2) + (D (x\<^sup>2) * (2 * x)) * x"
    by (rule derivative_eq_intros DERIV_chain2 [OF F] | simp)+
  moreover have "1 * F (x\<^sup>2) + (D (x\<^sup>2) * (2 * x)) * x = exp (- (x\<^sup>2) / 2)"
    using gauss_series_identity [of "x\<^sup>2"] by (simp add: F_def D_def power2_eq_square algebra_simps)
  moreover have "gauss_prim = (\<lambda>x. x * F (x\<^sup>2))"
    by (rule ext) (simp add: gauss_prim_factor F_def)
  ultimately show ?thesis by simp
qed


lemma gauss_prim_zero: "gauss_prim 0 = 0"
  by (simp add: gauss_prim_factor)

lemma gauss_prim_odd: "gauss_prim (- x) = - gauss_prim x"
  by (simp add: gauss_prim_factor)

lemma gauss_prim_mono:
  assumes "x \<le> y"
  shows "gauss_prim x \<le> gauss_prim y"
proof (rule DERIV_nonneg_imp_nondecreasing [OF assms])
  fix z show "\<exists>d. DERIV gauss_prim z :> d \<and> d \<ge> 0"
    using gauss_prim_deriv [of z] by (intro exI [of _ "exp (- (z\<^sup>2) / 2)"]) simp
qed

lemma gauss_prim_strict_mono:
  assumes "x < y"
  shows "gauss_prim x < gauss_prim y"
proof (rule DERIV_pos_imp_increasing [OF assms])
  fix z show "\<exists>d. DERIV gauss_prim z :> d \<and> d > 0"
    using gauss_prim_deriv [of z] by (intro exI [of _ "exp (- (z\<^sup>2) / 2)"]) simp
qed

lemma gauss_density_bound: "exp (- (x\<^sup>2) / 2) \<le> 2 * inverse (1 + x\<^sup>2)" for x :: real
proof -
  have "1 + x\<^sup>2 / 2 \<le> exp (x\<^sup>2 / 2)"
    by (rule exp_ge_add_one_self)
  moreover have "(1 + x\<^sup>2) / 2 \<le> 1 + x\<^sup>2 / 2" by simp
  ultimately have le: "(1 + x\<^sup>2) / 2 \<le> exp (x\<^sup>2 / 2)" by linarith
  have pos: "0 < (1 + x\<^sup>2) / 2" by (simp add: add_pos_nonneg)
  have "exp (- (x\<^sup>2) / 2) = exp (- (x\<^sup>2 / 2))"
    by simp
  also have "\<dots> = inverse (exp (x\<^sup>2 / 2))"
    by (rule exp_minus)
  also have "\<dots> \<le> inverse ((1 + x\<^sup>2) / 2)"
    using le pos by (rule le_imp_inverse_le)
  also have "\<dots> = 2 * inverse (1 + x\<^sup>2)"
    by (simp add: field_simps)
  finally show ?thesis .
qed

lemma gauss_prim_le_arctan:
  assumes "0 \<le> x"
  shows "gauss_prim x \<le> 2 * arctan x"
proof -
  have "gauss_prim x - 2 * arctan x \<le> gauss_prim 0 - 2 * arctan 0"
  proof (rule DERIV_nonpos_imp_nonincreasing [OF assms])
    fix z
    have "DERIV (\<lambda>z. gauss_prim z - 2 * arctan z) z :>
        exp (- (z\<^sup>2) / 2) - 2 * inverse (1 + z\<^sup>2)"
      by (rule derivative_eq_intros gauss_prim_deriv DERIV_arctan | simp)+
    then show "\<exists>d. DERIV (\<lambda>z. gauss_prim z - 2 * arctan z) z :> d \<and> d \<le> 0"
      using gauss_density_bound [of z] by (intro exI [of _ "exp (- (z\<^sup>2) / 2) - 2 * inverse (1 + z\<^sup>2)"]) simp
  qed
  then show ?thesis by (simp add: gauss_prim_zero)
qed

lemma gauss_prim_le_pi: "gauss_prim x \<le> pi"
proof (cases "0 \<le> x")
  case True
  then have "gauss_prim x \<le> 2 * arctan x" by (rule gauss_prim_le_arctan)
  also have "\<dots> \<le> pi" using arctan_ubound [of x] by simp
  finally show ?thesis .
next
  case False
  then have "gauss_prim x \<le> gauss_prim 0" by (intro gauss_prim_mono) simp
  then show ?thesis using pi_ge_zero by (simp only: gauss_prim_zero)
qed

lemma gauss_prim_bdd: "bdd_above (range gauss_prim)"
  by (rule bdd_aboveI [of _ pi]) (auto simp add: gauss_prim_le_pi)

lemma gauss_prim_le_half: "gauss_prim x \<le> gauss_half"
  unfolding gauss_half_def by (rule cSup_upper [OF _ gauss_prim_bdd]) simp

lemma gauss_half_pos: "0 < gauss_half"
proof -
  have "0 < gauss_prim 1" using gauss_prim_strict_mono [of 0 1] by (simp add: gauss_prim_zero)
  then show ?thesis using gauss_prim_le_half [of 1] by linarith
qed

subsection \<open>The Wallis integrals\<close>

text \<open>
  \<open>cos_prim k\<close> is a primitive of \<open>cos\<^sup>k\<close>. Its values \<open>wallis k\<close> at \<open>\<pi> / 2\<close> decrease
  in \<open>k\<close>, and two neighbours multiply to \<open>\<pi> / (2 (k + 1))\<close>.
\<close>

lemma cos_prim_deriv: "DERIV (cos_prim k) t :> cos t ^ k"
proof (induction k t rule: cos_prim.induct)
  case (1 t)
  show ?case by (simp add: cos_prim.simps(1) [abs_def])
next
  case (2 t)
  show ?case
    unfolding cos_prim.simps(2) [abs_def] by (rule derivative_eq_intros | simp)+
next
  case (3 k t)
  have c: "DERIV (\<lambda>t. cos t ^ Suc k) t :> real (Suc k) * (- sin t * cos t ^ (Suc k - Suc 0))"
    by (rule DERIV_power [OF DERIV_cos])
  have m: "DERIV (\<lambda>t. cos t ^ Suc k * sin t) t :>
      real (Suc k) * (- sin t * cos t ^ (Suc k - Suc 0)) * sin t + cos t * cos t ^ Suc k"
    by (rule DERIV_mult [OF c DERIV_sin])
  have d: "DERIV (\<lambda>t. cos t ^ Suc k * sin t / real (k + 2)) t :>
      (real (Suc k) * (- sin t * cos t ^ (Suc k - Suc 0)) * sin t + cos t * cos t ^ Suc k)
        / real (k + 2)"
    by (rule DERIV_cdivide [OF m])
  have p: "DERIV (\<lambda>t. real (k + 1) / real (k + 2) * cos_prim k t) t :>
      real (k + 1) / real (k + 2) * cos t ^ k"
    by (rule DERIV_cmult [OF 3])
  have s: "sin t * sin t = 1 - cos t * cos t"
    using sin_cos_squared_add3 [of t] by (simp add: algebra_simps)
  have "(real (Suc k) * (- sin t * cos t ^ (Suc k - Suc 0)) * sin t + cos t * cos t ^ Suc k)
        / real (k + 2) + real (k + 1) / real (k + 2) * cos t ^ k = cos t ^ Suc (Suc k)"
  proof -
    define X where "X = cos t ^ k"
    have "real (Suc k) * (- sin t * X) * sin t = - (real (Suc k) * X * (sin t * sin t))"
      by simp
    also have "\<dots> = - (real (Suc k) * X * (1 - cos t * cos t))"
      by (simp only: s)
    finally have "real (Suc k) * (- sin t * X) * sin t + cos t * (cos t * X) + real (k + 1) * X
        = real (k + 2) * (cos t * (cos t * X))"
      by (simp add: algebra_simps)
    then have "(real (Suc k) * (- sin t * X) * sin t + cos t * (cos t * X) + real (k + 1) * X)
        / real (k + 2) = cos t * (cos t * X)"
      by (simp add: field_simps)
    then have "(real (Suc k) * (- sin t * X) * sin t + cos t * (cos t * X)) / real (k + 2)
        + real (k + 1) / real (k + 2) * X = cos t * (cos t * X)"
      by (simp only: add_divide_distrib times_divide_eq_left)
    then show ?thesis by (simp add: X_def)
  qed
  with DERIV_add [OF d p] show ?case
    by (simp only: cos_prim.simps(3) [abs_def])
qed


lemma cos_prim_zero: "cos_prim k 0 = 0"
  by (induction k "0::real" rule: cos_prim.induct) simp_all

lemma wallis_0: "wallis 0 = pi / 2"
  by (simp add: wallis_def)

lemma wallis_1: "wallis (Suc 0) = 1"
  by (simp add: wallis_def)

lemma wallis_step: "wallis (Suc (Suc k)) = real (k + 1) / real (k + 2) * wallis k"
  by (simp add: wallis_def)

lemma wallis_pos: "0 < wallis k"
proof (induction k rule: induct_nat_012)
  case 0
  show ?case by (simp add: wallis_0)
next
  case 1
  show ?case by (simp add: wallis_1)
next
  case (ge2 n)
  then show ?case by (simp only: wallis_step) simp
qed

lemma wallis_prod: "wallis k * wallis (Suc k) = pi / (2 * real (k + 1))"
proof (induction k)
  case 0
  show ?case by (simp add: wallis_0 wallis_1)
next
  case (Suc k)
  have "wallis (Suc k) * wallis (Suc (Suc k))
      = real (k + 1) / real (k + 2) * (wallis k * wallis (Suc k))"
    by (simp only: wallis_step) simp
  also have "\<dots> = real (k + 1) / real (k + 2) * (pi / (2 * real (k + 1)))"
    by (simp only: Suc)
  also have "\<dots> = pi / (2 * real (Suc k + 1))"
  proof -
    define a b where "a = real (k + 1)" and "b = real (k + 2)"
    have "a \<noteq> 0" "b \<noteq> 0" by (simp_all add: a_def b_def)
    then have "a / b * (pi / (2 * a)) = pi / (2 * b)" by (simp add: field_simps)
    then show ?thesis by (simp add: a_def b_def)
  qed
  finally show ?case .
qed

lemma cos_prim_mono:
  assumes "0 \<le> s" and "s \<le> t" and "t \<le> pi / 2"
  shows "cos_prim k s \<le> cos_prim k t"
proof (rule DERIV_nonneg_imp_nondecreasing [OF assms(2)])
  fix z assume "s \<le> z" and "z \<le> t"
  then have "0 \<le> cos z" using assms(1,3) by (intro cos_ge_zero) simp_all
  then have "0 \<le> cos z ^ k" by simp
  then show "\<exists>y. DERIV (cos_prim k) z :> y \<and> y \<ge> 0"
    using cos_prim_deriv [of k z] by blast
qed

lemma cos_prim_le_wallis:
  assumes "0 \<le> t" and "t \<le> pi / 2"
  shows "cos_prim k t \<le> wallis k"
  unfolding wallis_def using assms by (intro cos_prim_mono) simp_all

lemma wallis_mono: "wallis (Suc k) \<le> wallis k"
proof -
  have "cos_prim k 0 - cos_prim (Suc k) 0 \<le> cos_prim k (pi / 2) - cos_prim (Suc k) (pi / 2)"
  proof (rule DERIV_nonneg_imp_nondecreasing
      [where f = "\<lambda>t. cos_prim k t - cos_prim (Suc k) t" and a = 0 and b = "pi / 2"])
    show "0 \<le> pi / 2" by simp
  next
    fix z :: real assume z: "0 \<le> z" "z \<le> pi / 2"
    then have c: "0 \<le> cos z" by (intro cos_ge_zero) simp_all
    have "DERIV (\<lambda>t. cos_prim k t - cos_prim (Suc k) t) z :> cos z ^ k - cos z ^ Suc k"
      by (rule DERIV_diff [OF cos_prim_deriv cos_prim_deriv])
    moreover have "cos z ^ Suc k \<le> cos z ^ k"
      using c cos_le_one [of z] by (simp add: mult_left_le_one_le)
    ultimately show "\<exists>y. DERIV (\<lambda>t. cos_prim k t - cos_prim (Suc k) t) z :> y \<and> y \<ge> 0"
      by (intro exI [of _ "cos z ^ k - cos z ^ Suc k"]) simp
  qed
  then show ?thesis by (simp add: cos_prim_zero wallis_def)
qed

lemma wallis_upper: "(wallis (Suc k))\<^sup>2 \<le> pi / (2 * real (k + 1))"
proof -
  have "wallis (Suc k) * wallis (Suc k) \<le> wallis k * wallis (Suc k)"
    using wallis_mono [of k] wallis_pos [of "Suc k"] by (intro mult_right_mono) simp_all
  then show ?thesis by (simp only: wallis_prod power2_eq_square)
qed

lemma wallis_lower: "pi / (2 * real (k + 1)) \<le> (wallis k)\<^sup>2"
proof -
  have "wallis k * wallis (Suc k) \<le> wallis k * wallis k"
    using wallis_mono [of k] wallis_pos [of k] by (intro mult_left_mono) simp_all
  then show ?thesis by (simp only: wallis_prod power2_eq_square)
qed

subsection \<open>The total mass\<close>

text \<open>
  Substituting \<open>x = \<surd>(2 n) sin t\<close> below and \<open>x = \<surd>(2 n) tan t\<close> above encloses the
  primitive between Wallis integrals: from \<open>(1 - u)\<^sup>n \<le> exp (- n u) \<le> (1 + u)\<^sup>-\<^sup>n\<close>.
  Hence \<open>gauss_half\<^sup>2\<close> lies between \<open>\<pi> / 2 \<cdot> n / (n + 1)\<close> and \<open>\<pi> / 2 \<cdot> (n + 1) / n\<close> for
  every \<open>n\<close>, so it is \<open>\<pi> / 2\<close>.
\<close>

lemma cos_power_le_exp: "(cos t)\<^sup>2 ^ n \<le> exp (- (real n * (sin t)\<^sup>2))"
proof -
  have "(cos t)\<^sup>2 = 1 + (- (sin t)\<^sup>2)"
    by (simp add: cos_squared_eq)
  also have "\<dots> \<le> exp (- (sin t)\<^sup>2)"
    by (rule exp_ge_add_one_self)
  finally have "(cos t)\<^sup>2 ^ n \<le> exp (- (sin t)\<^sup>2) ^ n"
    by (intro power_mono) simp_all
  also have "\<dots> = exp (real n * (- (sin t)\<^sup>2))"
    by (rule exp_of_nat_mult [symmetric])
  finally show ?thesis by simp
qed

lemma gauss_prim_lower:
  fixes n :: nat
  defines "c \<equiv> sqrt (2 * real n)"
  shows "c * wallis (2 * n + 1) \<le> gauss_prim c"
proof -
  define L where "L t = gauss_prim (c * sin t) - c * cos_prim (2 * n + 1) t" for t
  have c: "0 \<le> c" by (simp add: c_def)
  have c2: "c\<^sup>2 = 2 * real n" by (simp add: c_def)
  have "L 0 \<le> L (pi / 2)"
  proof (rule DERIV_nonneg_imp_nondecreasing [where f = L])
    show "0 \<le> pi / 2" by simp
  next
    fix z :: real assume z: "0 \<le> z" "z \<le> pi / 2"
    then have cz: "0 \<le> cos z" by (intro cos_ge_zero) simp_all
    have i: "DERIV (\<lambda>t. c * sin t) z :> c * cos z"
      by (rule DERIV_cmult [OF DERIV_sin])
    have g: "DERIV (\<lambda>t. gauss_prim (c * sin t)) z :> exp (- ((c * sin z)\<^sup>2) / 2) * (c * cos z)"
      by (rule DERIV_chain2 [OF gauss_prim_deriv i])
    have w: "DERIV (\<lambda>t. c * cos_prim (2 * n + 1) t) z :> c * cos z ^ (2 * n + 1)"
      by (rule DERIV_cmult [OF cos_prim_deriv])
    have D: "DERIV L z :> exp (- ((c * sin z)\<^sup>2) / 2) * (c * cos z) - c * cos z ^ (2 * n + 1)"
      unfolding L_def [abs_def] by (rule DERIV_diff [OF g w])
    have "(c * sin z)\<^sup>2 / 2 = real n * (sin z)\<^sup>2"
      by (simp add: power_mult_distrib c2)
    then have e: "exp (- ((c * sin z)\<^sup>2) / 2) = exp (- (real n * (sin z)\<^sup>2))"
      by simp
    have "cos z ^ (2 * n + 1) = (cos z)\<^sup>2 ^ n * cos z"
      by (simp add: power_mult)
    also have "\<dots> \<le> exp (- (real n * (sin z)\<^sup>2)) * cos z"
      using cos_power_le_exp [of z n] cz by (rule mult_right_mono)
    finally have "c * cos z ^ (2 * n + 1) \<le> c * (exp (- (real n * (sin z)\<^sup>2)) * cos z)"
      using c by (rule mult_left_mono)
    then have "0 \<le> exp (- ((c * sin z)\<^sup>2) / 2) * (c * cos z) - c * cos z ^ (2 * n + 1)"
      unfolding e by (simp add: algebra_simps)
    with D show "\<exists>y. DERIV L z :> y \<and> y \<ge> 0" by blast
  qed
  then show ?thesis
    by (simp add: L_def gauss_prim_zero cos_prim_zero wallis_def)
qed

lemma inverse_power_ge_exp:
  fixes y :: real
  shows "exp (- (real n * y\<^sup>2)) \<le> (1 / (1 + y\<^sup>2)) ^ n"
proof -
  have pos: "0 < 1 + y\<^sup>2" by (simp add: add_pos_nonneg)
  have "1 + y\<^sup>2 \<le> exp (y\<^sup>2)" by (rule exp_ge_add_one_self)
  then have "inverse (exp (y\<^sup>2)) \<le> inverse (1 + y\<^sup>2)"
    using pos by (rule le_imp_inverse_le)
  then have "exp (- (y\<^sup>2)) \<le> 1 / (1 + y\<^sup>2)"
    by (simp add: exp_minus inverse_eq_divide)
  then have "exp (- (y\<^sup>2)) ^ n \<le> (1 / (1 + y\<^sup>2)) ^ n"
    by (intro power_mono) simp_all
  moreover have "exp (- (y\<^sup>2)) ^ n = exp (real n * (- (y\<^sup>2)))"
    by (rule exp_of_nat_mult [symmetric])
  ultimately show ?thesis by simp
qed

lemma cos_arctan_squared: "(cos (arctan y))\<^sup>2 = 1 / (1 + y\<^sup>2)"
proof -
  have "0 \<le> 1 + y\<^sup>2" by (simp add: add_nonneg_nonneg)
  then show ?thesis by (simp add: cos_arctan power_divide)
qed

lemma gauss_prim_upper:
  fixes m :: nat
  defines "c \<equiv> sqrt (2 * real (m + 1))"
  shows "gauss_prim x \<le> c * wallis (2 * m)"
proof (cases "0 \<le> x")
  case False
  then have "gauss_prim x \<le> gauss_prim 0" by (intro gauss_prim_mono) simp
  moreover have "0 \<le> c * wallis (2 * m)"
    using wallis_pos [of "2 * m"] by (simp add: c_def)
  ultimately show ?thesis by (simp add: gauss_prim_zero)
next
  case True
  define U where "U t = c * cos_prim (2 * m) (arctan (t / c)) - gauss_prim t" for t
  have c: "0 < c" by (simp add: c_def)
  have c2: "c\<^sup>2 = 2 * real (m + 1)" by (simp add: c_def)
  have "U 0 \<le> U x"
  proof (rule DERIV_nonneg_imp_nondecreasing [where f = U, OF True])
    fix z :: real
    define y where "y = z / c"
    have a: "DERIV (\<lambda>t. arctan (t / c)) z :> inverse (1 + (z / c)\<^sup>2) * (1 / c)"
      by (rule DERIV_chain2 [OF DERIV_arctan DERIV_cdivide [OF DERIV_ident]])
    have p: "DERIV (\<lambda>t. cos_prim (2 * m) (arctan (t / c))) z :>
        cos (arctan (z / c)) ^ (2 * m) * (inverse (1 + (z / c)\<^sup>2) * (1 / c))"
      by (rule DERIV_chain2 [OF cos_prim_deriv a])
    have D: "DERIV U z :> c * (cos (arctan (z / c)) ^ (2 * m) * (inverse (1 + (z / c)\<^sup>2) * (1 / c)))
        - exp (- (z\<^sup>2) / 2)"
      unfolding U_def [abs_def] by (rule DERIV_diff [OF DERIV_cmult [OF p] gauss_prim_deriv])
    have "cos (arctan y) ^ (2 * m) = (1 / (1 + y\<^sup>2)) ^ m"
      by (simp add: power_mult cos_arctan_squared)
    then have "c * (cos (arctan y) ^ (2 * m) * (inverse (1 + y\<^sup>2) * (1 / c)))
        = (1 / (1 + y\<^sup>2)) ^ m * (1 / (1 + y\<^sup>2))"
      using c by (simp add: inverse_eq_divide)
    also have "\<dots> = (1 / (1 + y\<^sup>2)) ^ (m + 1)"
      by simp
    finally have v: "c * (cos (arctan y) ^ (2 * m) * (inverse (1 + y\<^sup>2) * (1 / c)))
        = (1 / (1 + y\<^sup>2)) ^ (m + 1)" .
    have "real (m + 1) * y\<^sup>2 = z\<^sup>2 / 2"
    proof -
      define a where "a = real (m + 1)"
      have "a \<noteq> 0" by (simp add: a_def)
      moreover have "y\<^sup>2 = z\<^sup>2 / (2 * a)"
        by (simp add: y_def power_divide c2 a_def)
      ultimately have "a * y\<^sup>2 = z\<^sup>2 / 2" by (simp add: field_simps)
      then show ?thesis by (simp only: a_def)
    qed
    then have "exp (- (z\<^sup>2) / 2) = exp (- (real (m + 1) * y\<^sup>2))"
      by simp
    also have "\<dots> \<le> (1 / (1 + y\<^sup>2)) ^ (m + 1)"
      by (rule inverse_power_ge_exp)
    finally have "0 \<le> c * (cos (arctan (z / c)) ^ (2 * m) * (inverse (1 + (z / c)\<^sup>2) * (1 / c)))
        - exp (- (z\<^sup>2) / 2)"
      using v by (simp add: y_def)
    with D show "\<exists>d. DERIV U z :> d \<and> d \<ge> 0" by blast
  qed
  then have "gauss_prim x \<le> c * cos_prim (2 * m) (arctan (x / c))"
    by (simp add: U_def gauss_prim_zero cos_prim_zero)
  also have "\<dots> \<le> c * wallis (2 * m)"
  proof (rule mult_left_mono)
    have "0 \<le> x / c" using True c by simp
    then have "0 \<le> arctan (x / c)" by simp
    moreover have "arctan (x / c) \<le> pi / 2" using arctan_ubound [of "x / c"] by simp
    ultimately show "cos_prim (2 * m) (arctan (x / c)) \<le> wallis (2 * m)"
      by (rule cos_prim_le_wallis)
    show "0 \<le> c" using c by simp
  qed
  finally show ?thesis .
qed

lemma gauss_half_lower: "pi / 2 * real n \<le> gauss_half\<^sup>2 * real (n + 1)"
proof -
  define c where "c = sqrt (2 * real n)"
  define w where "w = wallis (2 * n + 1)"
  have c: "0 \<le> c" and c2: "c\<^sup>2 = 2 * real n" by (simp_all add: c_def)
  have w: "0 \<le> w" using wallis_pos [of "2 * n + 1"] by (simp add: w_def)
  have "c * w \<le> gauss_prim c"
    unfolding c_def w_def by (rule gauss_prim_lower)
  also have "\<dots> \<le> gauss_half" by (rule gauss_prim_le_half)
  finally have "(c * w)\<^sup>2 \<le> gauss_half\<^sup>2"
    using c w by (intro power_mono) simp_all
  then have le: "2 * real n * w\<^sup>2 \<le> gauss_half\<^sup>2"
    by (simp add: power_mult_distrib c2)
  have "pi / (2 * real (2 * n + 1 + 1)) \<le> w\<^sup>2"
    unfolding w_def by (rule wallis_lower)
  then have "pi / (4 * real (n + 1)) \<le> w\<^sup>2"
    by (simp add: algebra_simps)
  then have "2 * real n * (pi / (4 * real (n + 1))) \<le> 2 * real n * w\<^sup>2"
    by (intro mult_left_mono) simp_all
  then have "2 * real n * (pi / (4 * real (n + 1))) \<le> gauss_half\<^sup>2"
    using le by linarith
  then have "2 * real n * (pi / (4 * real (n + 1))) * real (n + 1) \<le> gauss_half\<^sup>2 * real (n + 1)"
    by (intro mult_right_mono) simp_all
  moreover have "2 * real n * (pi / (4 * real (n + 1))) * real (n + 1) = pi / 2 * real n"
  proof -
    define a where "a = real (n + 1)"
    have "a \<noteq> 0" by (simp add: a_def)
    then have "2 * real n * (pi / (4 * a)) * a = pi / 2 * real n" by simp
    then show ?thesis by (simp only: a_def)
  qed
  ultimately show ?thesis by simp
qed

lemma gauss_half_le: "gauss_half \<le> sqrt (2 * real (m + 1)) * wallis (2 * m)"
  unfolding gauss_half_def
proof (rule cSup_least)
  show "range gauss_prim \<noteq> {}" by simp
next
  fix v assume "v \<in> range gauss_prim"
  then obtain x where "v = gauss_prim x" by blast
  then show "v \<le> sqrt (2 * real (m + 1)) * wallis (2 * m)"
    by (simp only: gauss_prim_upper)
qed

lemma gauss_half_upper:
  assumes "0 < m"
  shows "gauss_half\<^sup>2 * real m \<le> pi / 2 * real (m + 1)"
proof -
  define c where "c = sqrt (2 * real (m + 1))"
  define w where "w = wallis (2 * m)"
  have c: "0 \<le> c" and c2: "c\<^sup>2 = 2 * real (m + 1)" by (simp_all add: c_def)
  have w: "0 \<le> w" using wallis_pos [of "2 * m"] by (simp add: w_def)
  have "gauss_half \<le> c * w"
    unfolding c_def w_def by (rule gauss_half_le)
  then have "gauss_half\<^sup>2 \<le> (c * w)\<^sup>2"
    using gauss_half_pos by (intro power_mono) simp_all
  then have le: "gauss_half\<^sup>2 \<le> 2 * real (m + 1) * w\<^sup>2"
    by (simp add: power_mult_distrib c2)
  have "2 * m = Suc (2 * m - 1)" using assms by simp
  then have "w = wallis (Suc (2 * m - 1))" by (simp only: w_def)
  then have "w\<^sup>2 \<le> pi / (2 * real (2 * m - 1 + 1))"
    by (simp only: wallis_upper)
  moreover have "real (2 * m - 1 + 1) = 2 * real m" using assms by simp
  ultimately have "w\<^sup>2 \<le> pi / (4 * real m)" by simp
  then have "2 * real (m + 1) * w\<^sup>2 \<le> 2 * real (m + 1) * (pi / (4 * real m))"
    by (intro mult_left_mono) simp_all
  then have "gauss_half\<^sup>2 \<le> 2 * real (m + 1) * (pi / (4 * real m))"
    using le by linarith
  then have "gauss_half\<^sup>2 * real m \<le> 2 * real (m + 1) * (pi / (4 * real m)) * real m"
    by (intro mult_right_mono) simp_all
  moreover have "2 * real (m + 1) * (pi / (4 * real m)) * real m = pi / 2 * real (m + 1)"
    using assms by simp
  ultimately show ?thesis by simp
qed

lemma gauss_half_squared: "gauss_half\<^sup>2 = pi / 2"
proof (rule antisym)
  show "gauss_half\<^sup>2 \<le> pi / 2"
  proof (rule ccontr)
    assume "\<not> gauss_half\<^sup>2 \<le> pi / 2"
    then have d: "0 < gauss_half\<^sup>2 - pi / 2" by simp
    obtain n where n: "pi / 2 < real n * (gauss_half\<^sup>2 - pi / 2)"
      using reals_Archimedean3 [OF d] by blast
    have "0 < n"
    proof (rule ccontr)
      assume "\<not> 0 < n"
      then show False using n pi_gt_zero by simp
    qed
    then have "gauss_half\<^sup>2 * real n \<le> pi / 2 * real (n + 1)"
      by (rule gauss_half_upper)
    then have "real n * (gauss_half\<^sup>2 - pi / 2) \<le> pi / 2"
      by (simp add: algebra_simps)
    then show False using n by simp
  qed
  show "pi / 2 \<le> gauss_half\<^sup>2"
  proof (rule ccontr)
    assume "\<not> pi / 2 \<le> gauss_half\<^sup>2"
    then have d: "0 < pi / 2 - gauss_half\<^sup>2" by simp
    obtain n where n: "pi / 2 < real n * (pi / 2 - gauss_half\<^sup>2)"
      using reals_Archimedean3 [OF d] by blast
    have "pi / 2 * real n \<le> gauss_half\<^sup>2 * real (n + 1)"
      by (rule gauss_half_lower)
    then have "real n * (pi / 2 - gauss_half\<^sup>2) \<le> gauss_half\<^sup>2"
      by (simp add: algebra_simps)
    moreover have "gauss_half\<^sup>2 < pi / 2" using d by simp
    ultimately show False using n by linarith
  qed
qed

lemma gauss_half_eq: "gauss_half = sqrt (pi / 2)"
proof -
  have "sqrt (gauss_half\<^sup>2) = sqrt (pi / 2)" by (simp only: gauss_half_squared)
  then show ?thesis using gauss_half_pos by simp
qed

lemma Phi_half: "Phi x = 1 / 2 + gauss_prim x / (2 * gauss_half)"
proof -
  have "2 * gauss_half = sqrt 4 * sqrt (pi / 2)"
    by (simp add: gauss_half_eq)
  also have "\<dots> = sqrt (4 * (pi / 2))"
    by (rule real_sqrt_mult [symmetric])
  finally have "2 * gauss_half = sqrt (2 * pi)" by simp
  then show ?thesis by (simp add: Phi_def)
qed

subsection \<open>The distribution function\<close>

lemma Phi_nonneg: "0 \<le> Phi x"
proof -
  have "- gauss_prim x \<le> gauss_half"
    using gauss_prim_le_half [of "- x"] by (simp add: gauss_prim_odd)
  then have "- 1 \<le> gauss_prim x / gauss_half"
    using gauss_half_pos by (simp add: field_simps)
  then show ?thesis by (simp add: Phi_half)
qed

lemma Phi_le_one: "Phi x \<le> 1"
proof -
  have "gauss_prim x / gauss_half \<le> 1"
    using gauss_prim_le_half [of x] gauss_half_pos by (simp add: field_simps)
  then show ?thesis by (simp add: Phi_half)
qed

lemma Phi_deriv: "DERIV Phi x :> exp (- (x\<^sup>2) / 2) / (2 * gauss_half)"
proof -
  have "DERIV (\<lambda>x. 1 / 2 + gauss_prim x * (1 / (2 * gauss_half))) x :>
      0 + exp (- (x\<^sup>2) / 2) * (1 / (2 * gauss_half))"
    by (intro DERIV_add DERIV_const DERIV_cmult_right gauss_prim_deriv)
  moreover have "Phi = (\<lambda>x. 1 / 2 + gauss_prim x * (1 / (2 * gauss_half)))"
    by (rule ext) (simp add: Phi_half)
  ultimately show ?thesis by simp
qed

lemma Phi_mono: "x \<le> y \<Longrightarrow> Phi x \<le> Phi y"
  using gauss_prim_mono [of x y] gauss_half_pos by (simp add: Phi_half divide_right_mono)

lemma Phi_small: 
  assumes "0 < e"
  shows "\<exists>y. Phi y < e"
proof -
  have "gauss_half - 2 * gauss_half * e < gauss_half"
    using assms gauss_half_pos by simp
  then have "\<exists>v\<in>range gauss_prim. gauss_half - 2 * gauss_half * e < v"
    unfolding gauss_half_def [symmetric]
    using less_cSup_iff [of "range gauss_prim" "gauss_half - 2 * gauss_half * e"] gauss_prim_bdd
    by (simp add: gauss_half_def)
  then obtain z where z: "gauss_half - 2 * gauss_half * e < gauss_prim z" by blast
  have "Phi (- z) = 1 / 2 - gauss_prim z / (2 * gauss_half)"
    by (simp add: Phi_half gauss_prim_odd)
  also have "\<dots> < e"
    using z gauss_half_pos by (simp add: field_simps)
  finally show ?thesis by blast
qed

text \<open>
  The inequality behind the lower no-arbitrage bound: the difference
  \<open>exp (t a - a\<^sup>2 / 2) \<Phi>(t) - \<Phi>(t - a)\<close> has a non-negative derivative in \<open>t\<close> and
  tends to 0 towards \<open>-\<infinity>\<close>.
\<close>

lemma Phi_shift:
  assumes a: "0 \<le> a"
  shows "Phi (d - a) \<le> exp (d * a - a\<^sup>2 / 2) * Phi d"
proof (rule ccontr)
  define h where "h t = exp (t * a - a\<^sup>2 / 2) * Phi t - Phi (t - a)" for t
  define c where "c = 2 * gauss_half"
  have c: "0 < c" using gauss_half_pos by (simp add: c_def)
  assume "\<not> Phi (d - a) \<le> exp (d * a - a\<^sup>2 / 2) * Phi d"
  then have neg: "h d < 0" by (simp add: h_def)
  have dens: "exp (t * a - a\<^sup>2 / 2) * exp (- (t\<^sup>2) / 2) = exp (- ((t - a)\<^sup>2) / 2)" for t
    unfolding exp_add [symmetric] by (simp add: power2_eq_square algebra_simps)
  have deriv: "DERIV h t :> exp (t * a - a\<^sup>2 / 2) * a * Phi t" for t
  proof -
    have e: "DERIV (\<lambda>x. exp (x * a - a\<^sup>2 / 2)) t :> exp (t * a - a\<^sup>2 / 2) * a"
      by (rule derivative_eq_intros | simp)+
    have p: "DERIV Phi t :> exp (- (t\<^sup>2) / 2) / c"
      unfolding c_def by (rule Phi_deriv)
    have "DERIV (\<lambda>x. x - a) t :> 1"
      by (rule derivative_eq_intros | simp)+
    then have q: "DERIV (\<lambda>x. Phi (x - a)) t :> exp (- ((t - a)\<^sup>2) / 2) / c * 1"
      unfolding c_def by (rule DERIV_chain2 [OF Phi_deriv])
    have D: "DERIV h t :> exp (t * a - a\<^sup>2 / 2) * a * Phi t
        + exp (- (t\<^sup>2) / 2) / c * exp (t * a - a\<^sup>2 / 2)
        - exp (- ((t - a)\<^sup>2) / 2) / c * 1"
      unfolding h_def [abs_def] by (rule DERIV_diff [OF DERIV_mult [OF e p] q])
    have "exp (- (t\<^sup>2) / 2) / c * exp (t * a - a\<^sup>2 / 2)
        = exp (t * a - a\<^sup>2 / 2) * exp (- (t\<^sup>2) / 2) / c"
      by simp
    also have "\<dots> = exp (- ((t - a)\<^sup>2) / 2) / c"
      by (simp only: dens)
    finally have "exp (t * a - a\<^sup>2 / 2) * a * Phi t
        + exp (- (t\<^sup>2) / 2) / c * exp (t * a - a\<^sup>2 / 2)
        - exp (- ((t - a)\<^sup>2) / 2) / c * 1 = exp (t * a - a\<^sup>2 / 2) * a * Phi t"
      by simp
    with D show ?thesis by (simp only:)
  qed
  have mono: "h s \<le> h t" if "s \<le> t" for s t
  proof (rule DERIV_nonneg_imp_nondecreasing [OF that])
    fix z
    have "0 \<le> exp (z * a - a\<^sup>2 / 2) * a * Phi z"
      using a Phi_nonneg [of z] by simp
    then show "\<exists>y. DERIV h z :> y \<and> y \<ge> 0"
      using deriv [of z] by blast
  qed
  obtain y where y: "Phi y < - h d"
    using Phi_small [of "- h d"] neg by auto
  define t where "t = min d (y + a)"
  have "h t \<le> h d" by (rule mono) (simp add: t_def)
  moreover have "Phi (t - a) \<le> Phi y" by (rule Phi_mono) (simp add: t_def)
  moreover have "0 \<le> exp (t * a - a\<^sup>2 / 2) * Phi t"
    using Phi_nonneg [of t] by simp
  then have "- Phi (t - a) \<le> h t" by (simp add: h_def)
  ultimately show False using y by linarith
qed

lemma closed_form_bounds:
  assumes S: "0 < S" and K: "0 < K" and sg: "0 < sigma" and T: "0 < T"
  shows "0 \<le> bs_closed_form S K T r sigma" and "bs_closed_form S K T r sigma \<le> S"
proof -
  define a where "a = sigma * sqrt T"
  define d1 where "d1 = bs_d1 S K T r sigma"
  have a: "0 < a" using sg T by (simp add: a_def)
  have d2: "bs_d2 S K T r sigma = d1 - a" by (simp add: bs_d2_def d1_def a_def)
  have sq: "a\<^sup>2 = sigma\<^sup>2 * T" using T by (simp add: a_def power_mult_distrib)
  have "d1 = (ln (S / K) + (r + sigma\<^sup>2 / 2) * T) / a"
    by (simp add: d1_def bs_d1_def a_def)
  then have "d1 * a = ln (S / K) + (r + sigma\<^sup>2 / 2) * T"
    using a by simp
  then have "d1 * a - a\<^sup>2 / 2 = ln (S / K) + r * T"
    by (simp add: sq algebra_simps)
  then have "exp (d1 * a - a\<^sup>2 / 2) = S / K * exp (r * T)"
    using S K by (simp add: exp_add)
  then have "K * exp (- (r * T)) * exp (d1 * a - a\<^sup>2 / 2) = S"
    using K by (simp add: exp_minus field_simps)
  then have "S * Phi d1 = K * exp (- (r * T)) * exp (d1 * a - a\<^sup>2 / 2) * Phi d1"
    by (simp only:)
  then have eq: "S * Phi d1 = K * exp (- (r * T)) * (exp (d1 * a - a\<^sup>2 / 2) * Phi d1)"
    by (simp only: mult.assoc)
  have low: "K * exp (- (r * T)) * Phi (d1 - a)
      \<le> K * exp (- (r * T)) * (exp (d1 * a - a\<^sup>2 / 2) * Phi d1)"
    using K Phi_shift [of a d1] a by (intro mult_left_mono) simp_all
  have form: "bs_closed_form S K T r sigma = S * Phi d1 - K * exp (- (r * T)) * Phi (d1 - a)"
    by (simp only: bs_closed_form_def d2 d1_def)
  show "0 \<le> bs_closed_form S K T r sigma"
    using eq low form by linarith
  have "S * Phi d1 \<le> S * 1"
    using S Phi_le_one [of d1] by (intro mult_left_mono) simp_all
  moreover have "0 \<le> K * exp (- (r * T)) * Phi (d1 - a)"
    using K Phi_nonneg [of "d1 - a"] by simp
  ultimately show "bs_closed_form S K T r sigma \<le> S"
    using form by linarith
qed

section \<open>Properties of the pricing function\<close>

text \<open>
  Claim C1. For a spot \<open>S > 0\<close>, a strike \<open>K > 0\<close>, a volatility \<open>\<sigma> > 0\<close>, any rate
  \<open>r\<close> and a scalar time \<open>T\<close> above the threshold, \<^verbatim>\<open>black_scholes_call\<close> returns the
  Black-Scholes closed form \<open>S \<Phi>(d1) - K e\<^sup>-\<^sup>r\<^sup>T \<Phi>(d2)\<close>; for an array of positive
  spots it returns the array of the closed form of each spot, the other four parameters
  held fixed.
\<close>

theorem price_call_closed_form:
  assumes "0 < K" and "0 < sigma" and "threshold < T"
  shows "(0 < S \<longrightarrow>
            black_scholes_call (PyFloat S) (PyFloat K) (PyFloat T) (PyFloat r) (PyFloat sigma)
              = Inr (NpFloat (bs_closed_form S K T r sigma))) \<and>
         ((\<forall>s\<in>set xs. 0 < s) \<longrightarrow>
            black_scholes_call (NdArray xs) (PyFloat K) (PyFloat T) (PyFloat r) (PyFloat sigma)
              = Inr (NdArray (map (\<lambda>s. bs_closed_form s K T r sigma) xs)))"
proof (intro conjI impI)
  assume "0 < S"
  then have "0 < S / K" using assms(1) by simp
  then show "black_scholes_call (PyFloat S) (PyFloat K) (PyFloat T) (PyFloat r) (PyFloat sigma)
      = Inr (NpFloat (bs_closed_form S K T r sigma))"
    using assms by (simp add: scalar_call)
next
  assume "\<forall>s\<in>set xs. 0 < s"
  then have "\<And>s. s \<in> set xs \<Longrightarrow> 0 < s / K" using assms(1) by simp
  then show "black_scholes_call (NdArray xs) (PyFloat K) (PyFloat T) (PyFloat r) (PyFloat sigma)
      = Inr (NdArray (map (\<lambda>s. bs_closed_form s K T r sigma) xs))"
    using assms by (intro formula_array) simp_all
qed

text \<open>
  The theorem at \<open>S = 100\<close>, \<open>K = 95\<close>, \<open>T = 1/12\<close>, \<open>r = 0.04\<close>, \<open>\<sigma> = 0.25\<close> and the
  array of spots \<open>[80, 120]\<close>.
\<close>

theorem price_call_closed_form_witness:
  "(0::real) < 95 \<and> (0::real) < 1 / 4 \<and> threshold < 1 / 12 \<and> (0::real) < 100 \<and>
   (0::real) < 80 \<and> (0::real) < 120 \<and>
   black_scholes_call (PyFloat 100) (PyFloat 95) (PyFloat (1 / 12)) (PyFloat (1 / 25)) (PyFloat (1 / 4))
     = Inr (NpFloat (bs_closed_form 100 95 (1 / 12) (1 / 25) (1 / 4))) \<and>
   black_scholes_call (NdArray [80, 120]) (PyFloat 95) (PyFloat (1 / 12)) (PyFloat (1 / 25))
       (PyFloat (1 / 4))
     = Inr (NdArray [bs_closed_form 80 95 (1 / 12) (1 / 25) (1 / 4),
                     bs_closed_form 120 95 (1 / 12) (1 / 25) (1 / 4)])"
  using price_call_closed_form [of 95 "1 / 4" "1 / 12" 100 "1 / 25" "[80, 120]"]
  by (simp add: threshold_def)

text \<open>
  Claim C2. For a scalar time \<open>T\<close> at or below the threshold the function returns the
  intrinsic value \<open>max (S - K, 0)\<close>, elementwise for an array of spots, whatever \<open>r\<close> and
  \<open>\<sigma>\<close> are (values of any kind, also those at which the closed form has no value):
  the closed form is not evaluated.
\<close>

theorem price_call_expiration_shortcut:
  assumes "T \<le> threshold"
  shows "black_scholes_call (PyFloat S) (PyFloat K) (PyFloat T) r sigma
           = Inr (NpFloat (intrinsic_value S K)) \<and>
         black_scholes_call (NdArray xs) (PyFloat K) (PyFloat T) r sigma
           = Inr (NdArray (map (\<lambda>x. intrinsic_value x K) xs))"
  using assms by (simp add: shortcut_scalar shortcut_array)

text \<open>
  The theorem at \<open>T = 0\<close>, with \<open>\<sigma> = 0\<close> and a strike \<open>K = 0\<close>, where the closed form
  would divide by zero.
\<close>

theorem price_call_expiration_shortcut_witness:
  "(0::real) \<le> threshold \<and>
   black_scholes_call (PyFloat 100) (PyFloat 0) (PyFloat 0) (PyFloat (1 / 25)) (PyFloat 0)
     = Inr (NpFloat 100) \<and>
   black_scholes_call (NdArray [90, 110]) (PyFloat 100) (PyFloat 0) (NdArray [1, 2, 3]) (NpFloat 0)
     = Inr (NdArray [0, 10])"
  using price_call_expiration_shortcut [of 0 100 0 "PyFloat (1 / 25)" "PyFloat 0" "[]"]
    price_call_expiration_shortcut [of 0 0 100 "NdArray [1, 2, 3]" "NpFloat 0" "[90, 110]"]
  by (simp add: threshold_def intrinsic_value_def)

text \<open>
  Claim C3. For \<open>K > 0\<close>, \<open>\<sigma> > 0\<close>, \<open>T \<ge> 0\<close> and any \<open>r\<close>, the price returned for
  a spot \<open>S > 0\<close> lies between 0 and \<open>S\<close>; for an array of positive spots every
  returned price lies between 0 and its spot.
\<close>

theorem price_call_no_arbitrage_bounds:
  assumes "0 < K" and "0 < sigma" and "0 \<le> T"
  shows "(0 < S \<longrightarrow>
            (\<exists>p. black_scholes_call (PyFloat S) (PyFloat K) (PyFloat T) (PyFloat r) (PyFloat sigma)
                   = Inr (NpFloat p) \<and> 0 \<le> p \<and> p \<le> S)) \<and>
         ((\<forall>s\<in>set xs. 0 < s) \<longrightarrow>
            (\<exists>ps. black_scholes_call (NdArray xs) (PyFloat K) (PyFloat T) (PyFloat r) (PyFloat sigma)
                    = Inr (NdArray ps) \<and> list_all2 (\<lambda>p s. 0 \<le> p \<and> p \<le> s) ps xs))"
proof -
  have bounds: "0 \<le> price_call s K T r sigma \<and> price_call s K T r sigma \<le> s" if "0 < s" for s
  proof (cases "T \<le> threshold")
    case True
    then show ?thesis using that assms(1)
      by (simp add: price_call_def intrinsic_value_def)
  next
    case False
    then have "0 < T" by (simp add: threshold_def)
    then show ?thesis
      using False closed_form_bounds [OF that assms(1,2), of T r] by (simp add: price_call_def)
  qed
  have hp: "has_price s K T sigma" if "0 < s" for s
    using that assms(1,2) by (simp add: has_price_def)
  show ?thesis
  proof (intro conjI impI)
    assume "0 < S"
    then show "\<exists>p. black_scholes_call (PyFloat S) (PyFloat K) (PyFloat T) (PyFloat r) (PyFloat sigma)
        = Inr (NpFloat p) \<and> 0 \<le> p \<and> p \<le> S"
      using bounds [of S] hp [of S] by (simp add: scalar_price)
  next
    assume pos: "\<forall>s\<in>set xs. 0 < s"
    have call: "black_scholes_call (NdArray xs) (PyFloat K) (PyFloat T) (PyFloat r) (PyFloat sigma)
        = Inr (NdArray (map (\<lambda>s. price_call s K T r sigma) xs))"
    proof (cases "T \<le> threshold")
      case True
      then show ?thesis by (simp add: shortcut_array price_call_def)
    next
      case False
      moreover have "\<And>s. s \<in> set xs \<Longrightarrow> 0 < s / K" using pos assms(1) by simp
      ultimately show ?thesis using assms(1,2)
        by (simp add: formula_array price_call_def)
    qed
    have "list_all2 (\<lambda>p s. 0 \<le> p \<and> p \<le> s) (map (\<lambda>s. price_call s K T r sigma) xs) xs"
      using pos bounds by (simp add: list_all2_map1 list_all2_same)
    with call show "\<exists>ps. black_scholes_call (NdArray xs) (PyFloat K) (PyFloat T) (PyFloat r)
          (PyFloat sigma) = Inr (NdArray ps) \<and> list_all2 (\<lambda>p s. 0 \<le> p \<and> p \<le> s) ps xs"
      by blast
  qed
qed

text \<open>
  The theorem at \<open>S = 100\<close>, \<open>K = 95\<close>, \<open>T = 1/12\<close>, \<open>r = 0.04\<close>, \<open>\<sigma> = 0.25\<close> and the
  array of spots \<open>[80, 120]\<close>.
\<close>

theorem price_call_no_arbitrage_bounds_witness:
  "(0::real) < 95 \<and> (0::real) < 1 / 4 \<and> (0::real) \<le> 1 / 12 \<and> (0::real) < 100 \<and>
   (\<exists>p. black_scholes_call (PyFloat 100) (PyFloat 95) (PyFloat (1 / 12)) (PyFloat (1 / 25))
           (PyFloat (1 / 4)) = Inr (NpFloat p) \<and> 0 \<le> p \<and> p \<le> 100) \<and>
   (\<exists>ps. black_scholes_call (NdArray [80, 120]) (PyFloat 95) (PyFloat (1 / 12)) (PyFloat (1 / 25))
           (PyFloat (1 / 4)) = Inr (NdArray ps) \<and> list_all2 (\<lambda>p s. 0 \<le> p \<and> p \<le> s) ps [80, 120])"
  using price_call_no_arbitrage_bounds [of 95 "1 / 4" "1 / 12" 100 "1 / 25" "[80, 120]"]
  by simp

text \<open>
  Claim C9. When \<open>T\<close> is an array, no entry takes the intrinsic-value shortcut, not even an
  entry at or below the threshold: with scalar \<open>S\<close>, \<open>K\<close>, \<open>r\<close>, \<open>\<sigma>\<close> the result is the
  closed form of every entry of \<open>T\<close>. The run raises when \<open>K = 0\<close>, and leaves the real
  numbers when \<open>S / K \<le> 0\<close> or when an entry \<open>t\<close> is negative or has \<open>\<sigma> \<surd>t = 0\<close>.
\<close>

theorem price_call_array_T_no_shortcut:
  "black_scholes_call (PyFloat S) (PyFloat K) (NdArray ts) (PyFloat r) (PyFloat sigma) =
     (if K = 0 then Inl ZeroDivisionError
      else if S / K \<le> 0 then Inl NonFinite
      else if \<exists>t\<in>set ts. t < 0 \<or> sigma * sqrt t = 0 then Inl NonFinite
      else Inr (NdArray (map (\<lambda>t. bs_closed_form S K t r sigma) ts)))"
  by (rule array_T_call)

text \<open>
  The theorem at an array holding one entry below the threshold and one above it.
\<close>

theorem price_call_array_T_no_shortcut_witness:
  "(1 / 1000000 :: real) \<le> threshold \<and>
   black_scholes_call (PyFloat 100) (PyFloat 95) (NdArray [1 / 1000000, 1]) (PyFloat 0) (PyFloat 1)
     = Inr (NdArray [bs_closed_form 100 95 (1 / 1000000) 0 1, bs_closed_form 100 95 1 0 1])"
  using price_call_array_T_no_shortcut [of 100 95 "[1 / 1000000, 1]" 0 1]
  by (simp add: threshold_def)

text \<open>
  Claim C10. A negative scalar \<open>T\<close> is below the threshold too: the function does not
  raise and does not evaluate the closed form, it returns the intrinsic value
  \<open>max (S - K, 0)\<close>, whatever the other parameters are.
\<close>

theorem price_call_negative_T:
  assumes "T < 0"
  shows "black_scholes_call (PyFloat S) (PyFloat K) (PyFloat T) r sigma
           = Inr (NpFloat (max (S - K) 0))"
proof -
  have "T \<le> threshold" using assms by (simp add: threshold_def)
  then show ?thesis by (simp add: shortcut_scalar intrinsic_value_def)
qed

theorem price_call_negative_T_witness:
  "(- 1 :: real) < 0 \<and>
   black_scholes_call (PyFloat 100) (PyFloat 95) (PyFloat (- 1)) (PyFloat (1 / 25)) (PyFloat (1 / 4))
     = Inr (NpFloat 5)"
  using price_call_negative_T [of "- 1" 100 95 "PyFloat (1 / 25)" "PyFloat (1 / 4)"]
  by simp

section \<open>Evaluating the strategy evaluator\<close>

lemma linspace_eq:
  assumes "1 < n"
  shows "np_linspace a b n = map (\<lambda>i. a + real i * ((b - a) / real (n - 1))) [0..<n]"
proof (rule nth_equalityI)
  show "length (np_linspace a b n) = length (map (\<lambda>i. a + real i * ((b - a) / real (n - 1))) [0..<n])"
    using assms by (simp add: np_linspace_def Let_def)
next
  fix i assume "i < length (np_linspace a b n)"
  then have i: "i < n" using assms by (simp add: np_linspace_def Let_def)
  have n: "real (n - 1) \<noteq> 0" using assms by simp
  show "np_linspace a b n ! i = map (\<lambda>i. a + real i * ((b - a) / real (n - 1))) [0..<n] ! i"
  proof (cases "i = n - 1")
    case True
    then show ?thesis using assms i n by (simp add: np_linspace_def Let_def)
  next
    case False
    then show ?thesis using assms i by (simp add: np_linspace_def Let_def add.commute)
  qed
qed

lemma sweep_eq: "sweep S0 = map (\<lambda>i. S0 * (8 / 10 + real i * (4 / 2990))) [0..<300]"
  unfolding sweep_def by (subst linspace_eq) (simp_all add: algebra_simps)

lemma length_sweep: "length (sweep S0) = 300"
  by (simp add: sweep_eq)

lemma sweep_nth: "i < 300 \<Longrightarrow> sweep S0 ! i = S0 * (8 / 10 + real i * (4 / 2990))"
  by (simp add: sweep_eq)

lemma sweep_factor:
  assumes "x \<in> set (sweep S0)"
  obtains c where "0 < c" and "x = S0 * c"
proof -
  from assms obtain i where "x = S0 * (8 / 10 + real i * (4 / 2990))"
    by (auto simp: sweep_eq)
  moreover have "0 < 8 / 10 + real i * (4 / 2990)"
    by (simp add: add_pos_nonneg)
  ultimately show ?thesis using that by blast
qed

lemma has_price_sweep:
  assumes "has_price S0 K T sigma" and "x \<in> set (sweep S0)"
  shows "has_price x K T sigma"
proof -
  obtain c where c: "0 < c" "x = S0 * c" using assms(2) by (rule sweep_factor)
  show ?thesis
  proof (cases "T \<le> threshold")
    case True
    then show ?thesis by (simp add: has_price_def)
  next
    case False
    then have "K \<noteq> 0" "0 < S0 / K" "sigma \<noteq> 0" using assms(1) by (auto simp: has_price_def)
    moreover have "x / K = c * (S0 / K)" using c by simp
    moreover have "0 < c * (S0 / K)" using c(1) \<open>0 < S0 / K\<close> by (rule mult_pos_pos)
    ultimately show ?thesis by (simp add: has_price_def)
  qed
qed

lemma array_price:
  assumes "\<And>x. x \<in> set xs \<Longrightarrow> has_price x K T sigma" and "xs \<noteq> []"
  shows "black_scholes_call (NdArray xs) (PyFloat K) (PyFloat T) (PyFloat r) (PyFloat sigma) =
     Inr (NdArray (map (\<lambda>x. price_call x K T r sigma) xs))"
proof (cases "T \<le> threshold")
  case True
  then show ?thesis by (simp add: shortcut_array price_call_def)
next
  case False
  then have *: "\<And>x. x \<in> set xs \<Longrightarrow> 0 < x / K \<and> K \<noteq> 0 \<and> sigma \<noteq> 0"
    using assms(1) by (auto simp: has_price_def)
  obtain y where "y \<in> set xs" using assms(2) by (cases xs) auto
  then have "K \<noteq> 0" "sigma \<noteq> 0" using * by blast+
  then show ?thesis using False * by (simp add: formula_array price_call_def)
qed

lemma combine_scalars:
  "sub (add (Inr (NpFloat a)) (Inr (NpFloat b))) (mul (Inr (PyFloat 2)) (Inr (NpFloat c)))
     = Inr (NpFloat (a + b - 2 * c))"
  by (simp add: scalar_defs)

lemma combine_arrays:
  "sub (add (Inr (NdArray (map f xs))) (Inr (NdArray (map g xs))))
       (mul (Inr (PyFloat 2)) (Inr (NdArray (map h xs))))
     = Inr (NdArray (map (\<lambda>x. f x + g x - 2 * h x) xs))"
  by (simp add: add_def sub_def mul_def lift2_Inr broadcast_same_length map2_same as_array_def
      collect_map_Inr comp_def)

lemma sub_array_np:
  "sub (Inr (NdArray (map f xs))) (Inr (NpFloat c)) = Inr (NdArray (map (\<lambda>x. f x - c) xs))"
  by (simp add: array_defs)

lemma bind_res_Inr: "bind_res (Inr x) g = g x"
  by (simp add: bind_res_def)

lemma bind_res_Inl: "bind_res (Inl e) g = Inl e"
  by (simp add: bind_res_def)

lemma evaluate_returns:
  assumes "has_price S0 (K_mid - width) T sigma" and "has_price S0 K_mid T sigma"
    and "has_price S0 (K_mid + width) T sigma"
  shows "evaluate_butterfly S0 sigma T r K_mid width =
     Inr \<lparr>entry_cost = NpFloat (butterfly_value K_mid width T r sigma S0),
          x_domain = NdArray (sweep S0),
          y_exp = NdArray (map (\<lambda>x. butterfly_intrinsic K_mid width x
                                   - butterfly_value K_mid width T r sigma S0) (sweep S0)),
          y_cur = NdArray (map (\<lambda>x. butterfly_value K_mid width T r sigma x
                                   - butterfly_value K_mid width T r sigma S0) (sweep S0))\<rparr>"
proof -
  have ne: "sweep S0 \<noteq> []" using length_sweep [of S0] by auto
  have arr: "has_price S0 K T sigma \<Longrightarrow>
      black_scholes_call (NdArray (sweep S0)) (PyFloat K) (PyFloat T) (PyFloat r) (PyFloat sigma)
        = Inr (NdArray (map (\<lambda>x. price_call x K T r sigma) (sweep S0)))" for K
    by (rule array_price) (simp_all add: has_price_sweep ne)
  show ?thesis
    unfolding evaluate_butterfly_def Let_def sweep_def [symmetric]
    using assms
    by (simp add: scalar_price arr bind_res_Inr combine_scalars combine_arrays sub_array_np
        intrinsic_array butterfly_value_def butterfly_intrinsic_def)
qed

lemma evaluate_fails:
  assumes "\<not> (has_price S0 (K_mid - width) T sigma \<and> has_price S0 K_mid T sigma
    \<and> has_price S0 (K_mid + width) T sigma)"
  shows "\<exists>e. evaluate_butterfly S0 sigma T r K_mid width = Inl e"
  unfolding evaluate_butterfly_def Let_def
  using assms by (auto simp add: scalar_price bind_res_Inr bind_res_Inl)

lemma evaluate_cases:
  obtains (returns) "has_price S0 (K_mid - width) T sigma" "has_price S0 K_mid T sigma"
      "has_price S0 (K_mid + width) T sigma"
      "evaluate_butterfly S0 sigma T r K_mid width =
       Inr \<lparr>entry_cost = NpFloat (butterfly_value K_mid width T r sigma S0),
          x_domain = NdArray (sweep S0),
          y_exp = NdArray (map (\<lambda>x. butterfly_intrinsic K_mid width x
                                   - butterfly_value K_mid width T r sigma S0) (sweep S0)),
          y_cur = NdArray (map (\<lambda>x. butterfly_value K_mid width T r sigma x
                                   - butterfly_value K_mid width T r sigma S0) (sweep S0))\<rparr>"
  | (fails) e where "\<not> (has_price S0 (K_mid - width) T sigma \<and> has_price S0 K_mid T sigma
        \<and> has_price S0 (K_mid + width) T sigma)"
      "evaluate_butterfly S0 sigma T r K_mid width = Inl e"
  using evaluate_returns [of S0 K_mid width T sigma r] evaluate_fails [of S0 K_mid width T sigma r]
  by blast

lemma butterfly_intrinsic_peak:
  assumes "0 < width"
  shows "butterfly_intrinsic K_mid width K_mid = width"
    and "butterfly_intrinsic K_mid width x \<le> width"
  using assms by (auto simp add: butterfly_intrinsic_def intrinsic_value_def max_def)

lemma has_price_same_sign:
  assumes "T \<le> threshold \<or> (sigma \<noteq> 0 \<and> 0 < S0 * K)"
  shows "has_price S0 K T sigma"
proof (cases "T \<le> threshold")
  case True
  then show ?thesis by (simp add: has_price_def)
next
  case False
  then have s: "sigma \<noteq> 0" and p: "0 < S0 * K" using assms by simp_all
  from p have "K \<noteq> 0" by auto
  moreover from p have "0 < S0 / K" by (simp add: zero_less_mult_iff zero_less_divide_iff)
  ultimately show ?thesis using s by (simp add: has_price_def)
qed

lemma update_plot_eq:
  "update_plot w =
     evaluate_butterfly (spin_price w) (real_of_int (slider_iv w) / 100)
       (real_of_int (slider_days w) / 365) (spin_rate w / 100) (spin_atm w) (spin_width w)"
  by (simp add: update_plot_def)

section \<open>Properties of the strategy evaluator\<close>

text \<open>
  Claim C4. The evaluator takes the strikes \<open>K_mid - width\<close> and \<open>K_mid + width\<close> and
  yields the entry cost \<open>c\<close> exactly when the three calls of \<^verbatim>\<open>black_scholes_call\<close> at
  \<open>S0\<close> return prices \<open>cost_low\<close>, \<open>cost_mid\<close>, \<open>cost_high\<close> with
  \<open>c = cost_low + cost_high - 2 cost_mid\<close>: the sum is taken as it is, nothing clamps it.
\<close>

theorem entry_cost_formula:
  "(\<exists>v. evaluate_butterfly S0 sigma T r K_mid width = Inr v \<and> entry_cost v = NpFloat c) =
   (\<exists>cost_low cost_mid cost_high.
      black_scholes_call (PyFloat S0) (PyFloat (K_mid - width)) (PyFloat T) (PyFloat r) (PyFloat sigma)
        = Inr (NpFloat cost_low) \<and>
      black_scholes_call (PyFloat S0) (PyFloat K_mid) (PyFloat T) (PyFloat r) (PyFloat sigma)
        = Inr (NpFloat cost_mid) \<and>
      black_scholes_call (PyFloat S0) (PyFloat (K_mid + width)) (PyFloat T) (PyFloat r) (PyFloat sigma)
        = Inr (NpFloat cost_high) \<and>
      c = cost_low + cost_high - 2 * cost_mid)"
proof (cases rule: evaluate_cases [of S0 K_mid width T sigma r])
  case returns
  then show ?thesis
    by (auto simp add: scalar_price butterfly_value_def)
next
  case (fails e)
  then show ?thesis
    by (auto simp add: scalar_price)
qed

text \<open>The theorem at \<open>S0 = 100\<close>, \<open>T = 0\<close>, \<open>K_mid = 100\<close>, \<open>width = 5\<close>: the cost is 5.\<close>

theorem entry_cost_formula_witness:
  "\<exists>v. evaluate_butterfly 100 (1 / 4) 0 (1 / 25) 100 5 = Inr v \<and> entry_cost v = NpFloat 5"
proof -
  have "black_scholes_call (PyFloat 100) (PyFloat (100 - 5)) (PyFloat 0) (PyFloat (1 / 25)) (PyFloat (1 / 4))
      = Inr (NpFloat 5)"
    "black_scholes_call (PyFloat 100) (PyFloat 100) (PyFloat 0) (PyFloat (1 / 25)) (PyFloat (1 / 4))
      = Inr (NpFloat 0)"
    "black_scholes_call (PyFloat 100) (PyFloat (100 + 5)) (PyFloat 0) (PyFloat (1 / 25)) (PyFloat (1 / 4))
      = Inr (NpFloat 0)"
    by (simp_all add: shortcut_scalar threshold_def intrinsic_value_def)
  then show ?thesis
    using entry_cost_formula [of 100 "1 / 4" 0 "1 / 25" 100 5 5] by simp
qed

text \<open>
  Claim C5. At \<open>T = 0\<close> the evaluator returns, and its current-time curve is its expiration
  curve: at every point \<open>x\<close> of the sweep both are
  \<open>max (x - K_low, 0) + max (x - K_high, 0) - 2 max (x - K_mid, 0)\<close> minus the entry cost.
\<close>

theorem expiration_curves_coincide:
  "\<exists>v. evaluate_butterfly S0 sigma 0 r K_mid width = Inr v \<and>
       x_domain v = NdArray (sweep S0) \<and>
       entry_cost v = NpFloat (butterfly_intrinsic K_mid width S0) \<and>
       y_exp v = NdArray (map (\<lambda>x. butterfly_intrinsic K_mid width x
                                  - butterfly_intrinsic K_mid width S0) (sweep S0)) \<and>
       y_cur v = y_exp v"
proof -
  have hp: "has_price S0 K 0 sigma" for K
    by (simp add: has_price_def threshold_def)
  have bv: "butterfly_value K_mid width 0 r sigma x = butterfly_intrinsic K_mid width x" for x
    by (simp add: butterfly_value_def butterfly_intrinsic_def price_call_def threshold_def)
  show ?thesis
    by (simp add: evaluate_returns hp bv)
qed

text \<open>
  Claim C7. Let \<open>width > 0\<close>, and let the three calls at \<open>S0\<close> have real prices: \<open>T\<close> at
  or below the threshold, or \<open>\<sigma> \<noteq> 0\<close> and \<open>S0\<close> of the sign of each strike (valid parameters
  are of this kind). Then the evaluator returns, and its expiration curve is, at each point
  \<open>x\<close> of the sweep, the butterfly's intrinsic payoff minus the entry cost. That payoff is
  \<open>width\<close> at \<open>x = K_mid\<close>, so the expiration profit there is \<open>width - entry_cost\<close>; no
  point of the curve lies above it; and where \<open>K_mid\<close> is a point of the sweep the curve
  takes this value there.
\<close>

theorem expiration_peak:
  assumes "0 < width"
    and "T \<le> threshold \<or>
         (sigma \<noteq> 0 \<and> 0 < S0 * (K_mid - width) \<and> 0 < S0 * K_mid \<and> 0 < S0 * (K_mid + width))"
  shows "\<exists>v ec ys.
           evaluate_butterfly S0 sigma T r K_mid width = Inr v \<and>
           entry_cost v = NpFloat ec \<and> x_domain v = NdArray (sweep S0) \<and>
           y_exp v = NdArray ys \<and> length ys = length (sweep S0) \<and>
           (\<forall>i<length ys. ys ! i = butterfly_intrinsic K_mid width (sweep S0 ! i) - ec) \<and>
           butterfly_intrinsic K_mid width K_mid - ec = width - ec \<and>
           (\<forall>i<length ys. ys ! i \<le> width - ec) \<and>
           (\<forall>i<length ys. sweep S0 ! i = K_mid \<longrightarrow> ys ! i = width - ec)"
proof -
  define ec where "ec = butterfly_value K_mid width T r sigma S0"
  define ys where "ys = map (\<lambda>x. butterfly_intrinsic K_mid width x - ec) (sweep S0)"
  have hp: "has_price S0 (K_mid - width) T sigma" "has_price S0 K_mid T sigma"
    "has_price S0 (K_mid + width) T sigma"
    using assms(2) by (auto intro!: has_price_same_sign)
  have e: "evaluate_butterfly S0 sigma T r K_mid width =
      Inr \<lparr>entry_cost = NpFloat ec, x_domain = NdArray (sweep S0), y_exp = NdArray ys,
           y_cur = NdArray (map (\<lambda>x. butterfly_value K_mid width T r sigma x - ec) (sweep S0))\<rparr>"
    unfolding ec_def ys_def by (rule evaluate_returns [OF hp])
  have nth: "ys ! i = butterfly_intrinsic K_mid width (sweep S0 ! i) - ec" if "i < length ys" for i
    using that by (simp add: ys_def)
  have peak: "butterfly_intrinsic K_mid width K_mid = width"
    and le: "butterfly_intrinsic K_mid width x \<le> width" for x
    using assms(1) by (rule butterfly_intrinsic_peak)+
  have "length ys = length (sweep S0)" by (simp add: ys_def)
  moreover have "\<forall>i<length ys. ys ! i \<le> width - ec"
    using nth le by simp
  moreover have "\<forall>i<length ys. sweep S0 ! i = K_mid \<longrightarrow> ys ! i = width - ec"
    using nth peak by simp
  ultimately show ?thesis
    using e nth peak by (intro exI [of _ "\<lparr>entry_cost = NpFloat ec, x_domain = NdArray (sweep S0),
      y_exp = NdArray ys,
      y_cur = NdArray (map (\<lambda>x. butterfly_value K_mid width T r sigma x - ec) (sweep S0))\<rparr>"]
      exI [of _ ec] exI [of _ ys]) simp
qed

text \<open>
  The theorem at \<open>S0 = 299\<close>, \<open>K_mid = 300\<close>, \<open>width = 5\<close>, \<open>T = 0\<close>: the entry cost is 4,
  the centre strike is point 152 of the sweep, and the curve is \<open>5 - 4\<close> there.
\<close>

theorem expiration_peak_witness:
  "(0::real) < 5 \<and> (0::real) \<le> threshold \<and>
   evaluate_butterfly 299 (1 / 4) 0 (1 / 25) 300 5 =
     Inr \<lparr>entry_cost = NpFloat 4, x_domain = NdArray (sweep 299),
          y_exp = NdArray (map (\<lambda>x. butterfly_intrinsic 300 5 x - 4) (sweep 299)),
          y_cur = NdArray (map (\<lambda>x. butterfly_intrinsic 300 5 x - 4) (sweep 299))\<rparr> \<and>
   sweep 299 ! 152 = 300 \<and>
   map (\<lambda>x. butterfly_intrinsic 300 5 x - 4) (sweep 299) ! 152 = 5 - 4 \<and>
   map (\<lambda>x. butterfly_intrinsic 300 5 x - 4) (sweep 299) ! 0 \<le> 5 - 4"
proof -
  have hp: "has_price 299 K 0 (1 / 4)" for K
    by (simp add: has_price_def threshold_def)
  have bv: "butterfly_value 300 5 0 (1 / 25) (1 / 4) x = butterfly_intrinsic 300 5 x" for x
    by (simp add: butterfly_value_def butterfly_intrinsic_def price_call_def threshold_def)
  have s0: "butterfly_intrinsic 300 5 299 = 4"
    by (simp add: butterfly_intrinsic_def intrinsic_value_def)
  have e: "evaluate_butterfly 299 (1 / 4) 0 (1 / 25) 300 5 =
     Inr \<lparr>entry_cost = NpFloat 4, x_domain = NdArray (sweep 299),
          y_exp = NdArray (map (\<lambda>x. butterfly_intrinsic 300 5 x - 4) (sweep 299)),
          y_cur = NdArray (map (\<lambda>x. butterfly_intrinsic 300 5 x - 4) (sweep 299))\<rparr>"
    by (simp add: evaluate_returns hp bv s0)
  have k: "sweep 299 ! 152 = 300"
    by (simp add: sweep_nth)
  have t: "(0::real) \<le> threshold" by (simp add: threshold_def)
  obtain v ec ys where
    v: "evaluate_butterfly 299 (1 / 4) 0 (1 / 25) 300 5 = Inr v"
      "entry_cost v = NpFloat ec" "y_exp v = NdArray ys" "length ys = length (sweep 299)"
      "\<forall>i<length ys. ys ! i \<le> 5 - ec"
      "\<forall>i<length ys. sweep 299 ! i = 300 \<longrightarrow> ys ! i = 5 - ec"
    using expiration_peak [of 5 0 "1 / 4" 299 300 "1 / 25"] t by auto
  from v(1) e have "v = \<lparr>entry_cost = NpFloat 4, x_domain = NdArray (sweep 299),
          y_exp = NdArray (map (\<lambda>x. butterfly_intrinsic 300 5 x - 4) (sweep 299)),
          y_cur = NdArray (map (\<lambda>x. butterfly_intrinsic 300 5 x - 4) (sweep 299))\<rparr>"
    by simp
  with v(2,3) have ec: "ec = 4"
    and ys: "ys = map (\<lambda>x. butterfly_intrinsic 300 5 x - 4) (sweep 299)"
    by simp_all
  have "ys ! 152 = 5 - 4" "ys ! 0 \<le> 5 - 4"
    using v(4,5,6) k ec by (simp_all add: length_sweep)
  then show ?thesis using e k t ys by simp
qed

text \<open>
  Claim C8. Let \<open>S0 > 0\<close>, and let the three calls at \<open>S0\<close> have real prices: \<open>T\<close> at or
  below the threshold, or \<open>\<sigma> \<noteq> 0\<close> and three positive strikes. Then the evaluator returns;
  the sweep it returns has 300 points, begins at \<open>0.8 S0\<close>, ends at \<open>1.2 S0\<close>, has equal
  steps and increases strictly; and the two curves have 300 points as well.
\<close>

theorem sweep_domain:
  assumes "0 < S0"
    and "T \<le> threshold \<or> (sigma \<noteq> 0 \<and> 0 < K_mid - width \<and> 0 < K_mid \<and> 0 < K_mid + width)"
  shows "\<exists>v xs ys zs.
           evaluate_butterfly S0 sigma T r K_mid width = Inr v \<and>
           x_domain v = NdArray xs \<and> y_exp v = NdArray ys \<and> y_cur v = NdArray zs \<and>
           length xs = 300 \<and> length ys = 300 \<and> length zs = 300 \<and>
           xs ! 0 = 8 / 10 * S0 \<and> xs ! 299 = 12 / 10 * S0 \<and> last xs = 12 / 10 * S0 \<and>
           (\<forall>i<299. xs ! Suc i - xs ! i = (12 / 10 * S0 - 8 / 10 * S0) / 299) \<and>
           sorted_wrt (<) xs"
proof -
  have hp1: "has_price S0 K T sigma" if "T \<le> threshold \<or> (sigma \<noteq> 0 \<and> 0 < K)" for K
  proof (rule has_price_same_sign)
    show "T \<le> threshold \<or> (sigma \<noteq> 0 \<and> 0 < S0 * K)"
      using that assms(1) by auto
  qed
  have hp: "has_price S0 (K_mid - width) T sigma" "has_price S0 K_mid T sigma"
    "has_price S0 (K_mid + width) T sigma"
    using assms(2) by (blast intro: hp1)+
  define ec where "ec = butterfly_value K_mid width T r sigma S0"
  define ys where "ys = map (\<lambda>x. butterfly_intrinsic K_mid width x - ec) (sweep S0)"
  define zs where "zs = map (\<lambda>x. butterfly_value K_mid width T r sigma x - ec) (sweep S0)"
  define v where "v = \<lparr>entry_cost = NpFloat ec, x_domain = NdArray (sweep S0),
    y_exp = NdArray ys, y_cur = NdArray zs\<rparr>"
  have e: "evaluate_butterfly S0 sigma T r K_mid width = Inr v"
    unfolding v_def ys_def zs_def ec_def by (rule evaluate_returns [OF hp])
  have x: "x_domain v = NdArray (sweep S0)" and y: "y_exp v = NdArray ys"
    and z: "y_cur v = NdArray zs"
    by (simp_all add: v_def)
  have ly: "length ys = 300" and lz: "length zs = 300"
    by (simp_all add: ys_def zs_def length_sweep)
  have srt: "sorted_wrt (<) (sweep S0)"
    unfolding sorted_wrt_iff_nth_less using assms(1)
    by (auto simp add: length_sweep sweep_nth)
  have "last (sweep S0) = sweep S0 ! 299"
    using length_sweep [of S0] by (subst last_conv_nth) auto
  moreover have hi: "sweep S0 ! 299 = 12 / 10 * S0"
    by (simp add: sweep_nth)
  ultimately have lst: "last (sweep S0) = 12 / 10 * S0" by simp
  have lo: "sweep S0 ! 0 = 8 / 10 * S0"
    by (simp add: sweep_nth)
  have st: "\<forall>i<299. sweep S0 ! Suc i - sweep S0 ! i = (12 / 10 * S0 - 8 / 10 * S0) / 299"
    by (simp add: sweep_nth algebra_simps)
  have "evaluate_butterfly S0 sigma T r K_mid width = Inr v \<and>
      x_domain v = NdArray (sweep S0) \<and> y_exp v = NdArray ys \<and> y_cur v = NdArray zs \<and>
      length (sweep S0) = 300 \<and> length ys = 300 \<and> length zs = 300 \<and>
      sweep S0 ! 0 = 8 / 10 * S0 \<and> sweep S0 ! 299 = 12 / 10 * S0 \<and>
      last (sweep S0) = 12 / 10 * S0 \<and>
      (\<forall>i<299. sweep S0 ! Suc i - sweep S0 ! i = (12 / 10 * S0 - 8 / 10 * S0) / 299) \<and>
      sorted_wrt (<) (sweep S0)"
    using e x y z length_sweep [of S0] ly lz lo hi lst st srt by blast
  then show ?thesis by blast
qed

text \<open>The theorem at \<open>S0 = 100\<close>: the sweep runs from 80 to 120.\<close>

theorem sweep_domain_witness:
  "(0::real) < 100 \<and> (0::real) \<le> threshold \<and>
   evaluate_butterfly 100 (1 / 4) 0 (1 / 25) 100 5 =
     Inr \<lparr>entry_cost = NpFloat 5, x_domain = NdArray (sweep 100),
          y_exp = NdArray (map (\<lambda>x. butterfly_intrinsic 100 5 x - 5) (sweep 100)),
          y_cur = NdArray (map (\<lambda>x. butterfly_intrinsic 100 5 x - 5) (sweep 100))\<rparr> \<and>
   length (sweep 100) = 300 \<and> sweep 100 ! 0 = 80 \<and> sweep 100 ! 299 = 120 \<and>
   last (sweep 100) = 120 \<and> sorted_wrt (<) (sweep 100) \<and>
   length (map (\<lambda>x. butterfly_intrinsic 100 5 x - 5) (sweep 100)) = 300"
proof -
  have hp: "has_price 100 K 0 (1 / 4)" for K
    by (simp add: has_price_def threshold_def)
  have bv: "butterfly_value 100 5 0 (1 / 25) (1 / 4) x = butterfly_intrinsic 100 5 x" for x
    by (simp add: butterfly_value_def butterfly_intrinsic_def price_call_def threshold_def)
  have s0: "butterfly_intrinsic 100 5 100 = 5"
    by (simp add: butterfly_intrinsic_def intrinsic_value_def)
  have e: "evaluate_butterfly 100 (1 / 4) 0 (1 / 25) 100 5 =
     Inr \<lparr>entry_cost = NpFloat 5, x_domain = NdArray (sweep 100),
          y_exp = NdArray (map (\<lambda>x. butterfly_intrinsic 100 5 x - 5) (sweep 100)),
          y_cur = NdArray (map (\<lambda>x. butterfly_intrinsic 100 5 x - 5) (sweep 100))\<rparr>"
    by (simp add: evaluate_returns hp bv s0)
  have t: "(0::real) \<le> threshold" by (simp add: threshold_def)
  obtain v xs ys where
    v: "evaluate_butterfly 100 (1 / 4) 0 (1 / 25) 100 5 = Inr v"
      "x_domain v = NdArray xs" "y_exp v = NdArray ys" "length xs = 300" "length ys = 300"
      "xs ! 0 = 8 / 10 * 100" "xs ! 299 = 12 / 10 * 100" "last xs = 12 / 10 * 100"
      "sorted_wrt (<) xs"
    using sweep_domain [of 100 0 "1 / 4" 100 5 "1 / 25"] t by auto
  from v(1) e have "v = \<lparr>entry_cost = NpFloat 5, x_domain = NdArray (sweep 100),
          y_exp = NdArray (map (\<lambda>x. butterfly_intrinsic 100 5 x - 5) (sweep 100)),
          y_cur = NdArray (map (\<lambda>x. butterfly_intrinsic 100 5 x - 5) (sweep 100))\<rparr>"
    by simp
  with v(2,3) have "xs = sweep 100"
    and "ys = map (\<lambda>x. butterfly_intrinsic 100 5 x - 5) (sweep 100)"
    by simp_all
  then have "length (sweep 100) = 300" "sweep 100 ! 0 = 80" "sweep 100 ! 299 = 120"
    "last (sweep 100) = 120" "sorted_wrt (<) (sweep 100)"
    "length (map (\<lambda>x. butterfly_intrinsic 100 5 x - 5) (sweep 100)) = 300"
    using v(4-9) by simp_all
  then show ?thesis by (intro conjI e t) simp_all
qed

text \<open>
  Claim C6, as stated, fails: the evaluator checks nothing. With \<open>width = -5\<close> (and
  \<open>T = 0\<close>) it returns a result whose entry cost is 5, and so it does with \<open>T = -1\<close>.
\<close>

theorem invalid_parameters_not_rejected:
  "(- 5 :: real) \<le> 0 \<and>
   map_sum id entry_cost (evaluate_butterfly 100 (1 / 4) 0 (1 / 25) 100 (- 5)) = Inr (NpFloat 5) \<and>
   (- 1 :: real) < 0 \<and>
   map_sum id entry_cost (evaluate_butterfly 100 (1 / 4) (- 1) (1 / 25) 100 5) = Inr (NpFloat 5)"
proof -
  have hp: "has_price 100 K 0 (1 / 4)" "has_price 100 K (- 1) (1 / 4)" for K
    by (simp_all add: has_price_def threshold_def)
  show ?thesis
    by (simp add: evaluate_returns hp butterfly_value_def price_call_def threshold_def
        intrinsic_value_def)
qed

text \<open>
  Claim C6, amended. The evaluator does not reject invalid parameters with an
  InvalidParameter error before computing: it computes with them as with valid ones. For
  every parameter combination with a scalar \<open>T\<close> at or below the threshold (so for
  every \<open>T < 0\<close>, and whatever the width, the volatility, the spot and the centre strike
  are), and above the threshold whenever \<open>\<sigma> \<noteq> 0\<close> and \<open>S0\<close> has the sign of each of the
  three strikes (so also for \<open>width \<le> 0\<close> and for \<open>\<sigma> < 0\<close>), the evaluator returns the
  full result: the entry cost, the sweep and both curves.
\<close>

theorem invalid_parameters_computed:
  assumes "T \<le> threshold \<or>
         (sigma \<noteq> 0 \<and> 0 < S0 * (K_mid - width) \<and> 0 < S0 * K_mid \<and> 0 < S0 * (K_mid + width))"
  shows "evaluate_butterfly S0 sigma T r K_mid width =
     Inr \<lparr>entry_cost = NpFloat (butterfly_value K_mid width T r sigma S0),
          x_domain = NdArray (sweep S0),
          y_exp = NdArray (map (\<lambda>x. butterfly_intrinsic K_mid width x
                                   - butterfly_value K_mid width T r sigma S0) (sweep S0)),
          y_cur = NdArray (map (\<lambda>x. butterfly_value K_mid width T r sigma x
                                   - butterfly_value K_mid width T r sigma S0) (sweep S0))\<rparr>"
proof -
  have "has_price S0 (K_mid - width) T sigma" "has_price S0 K_mid T sigma"
    "has_price S0 (K_mid + width) T sigma"
    using assms by (auto intro!: has_price_same_sign)
  then show ?thesis by (rule evaluate_returns)
qed

text \<open>
  The theorem at \<open>T = -1\<close> with \<open>width = -5\<close> and \<open>\<sigma> = 0\<close>, where the entry cost is 5,
  and above the threshold at \<open>T = 30/365\<close> with \<open>width = -5\<close> and \<open>\<sigma> = -0.25\<close>.
\<close>

theorem invalid_parameters_computed_witness:
  "(- 1 :: real) \<le> threshold \<and> (- 5 :: real) \<le> 0 \<and> (0 :: real) \<le> 0 \<and>
   evaluate_butterfly 100 0 (- 1) (1 / 25) 100 (- 5) =
     Inr \<lparr>entry_cost = NpFloat (butterfly_value 100 (- 5) (- 1) (1 / 25) 0 100),
          x_domain = NdArray (sweep 100),
          y_exp = NdArray (map (\<lambda>x. butterfly_intrinsic 100 (- 5) x
                                   - butterfly_value 100 (- 5) (- 1) (1 / 25) 0 100) (sweep 100)),
          y_cur = NdArray (map (\<lambda>x. butterfly_value 100 (- 5) (- 1) (1 / 25) 0 x
                                   - butterfly_value 100 (- 5) (- 1) (1 / 25) 0 100) (sweep 100))\<rparr> \<and>
   butterfly_value 100 (- 5) (- 1) (1 / 25) 0 100 = 5 \<and>
   (- (1 / 4) :: real) \<le> 0 \<and>
   evaluate_butterfly 100 (- (1 / 4)) (30 / 365) (1 / 25) 100 (- 5) =
     Inr \<lparr>entry_cost = NpFloat (butterfly_value 100 (- 5) (30 / 365) (1 / 25) (- (1 / 4)) 100),
          x_domain = NdArray (sweep 100),
          y_exp = NdArray (map (\<lambda>x. butterfly_intrinsic 100 (- 5) x
                 - butterfly_value 100 (- 5) (30 / 365) (1 / 25) (- (1 / 4)) 100) (sweep 100)),
          y_cur = NdArray (map (\<lambda>x. butterfly_value 100 (- 5) (30 / 365) (1 / 25) (- (1 / 4)) x
                 - butterfly_value 100 (- 5) (30 / 365) (1 / 25) (- (1 / 4)) 100) (sweep 100))\<rparr>"
proof -
  have t: "(- 1 :: real) \<le> threshold" by (simp add: threshold_def)
  have v: "butterfly_value 100 (- 5) (- 1) (1 / 25) 0 100 = 5"
    by (simp add: butterfly_value_def price_call_def threshold_def intrinsic_value_def)
  have a: "evaluate_butterfly 100 0 (- 1) (1 / 25) 100 (- 5) =
     Inr \<lparr>entry_cost = NpFloat (butterfly_value 100 (- 5) (- 1) (1 / 25) 0 100),
          x_domain = NdArray (sweep 100),
          y_exp = NdArray (map (\<lambda>x. butterfly_intrinsic 100 (- 5) x
                                   - butterfly_value 100 (- 5) (- 1) (1 / 25) 0 100) (sweep 100)),
          y_cur = NdArray (map (\<lambda>x. butterfly_value 100 (- 5) (- 1) (1 / 25) 0 x
                                   - butterfly_value 100 (- 5) (- 1) (1 / 25) 0 100) (sweep 100))\<rparr>"
    using t by (intro invalid_parameters_computed) simp
  have b: "evaluate_butterfly 100 (- (1 / 4)) (30 / 365) (1 / 25) 100 (- 5) =
     Inr \<lparr>entry_cost = NpFloat (butterfly_value 100 (- 5) (30 / 365) (1 / 25) (- (1 / 4)) 100),
          x_domain = NdArray (sweep 100),
          y_exp = NdArray (map (\<lambda>x. butterfly_intrinsic 100 (- 5) x
                 - butterfly_value 100 (- 5) (30 / 365) (1 / 25) (- (1 / 4)) 100) (sweep 100)),
          y_cur = NdArray (map (\<lambda>x. butterfly_value 100 (- 5) (30 / 365) (1 / 25) (- (1 / 4)) x
                 - butterfly_value 100 (- 5) (30 / 365) (1 / 25) (- (1 / 4)) 100) (sweep 100))\<rparr>"
    by (intro invalid_parameters_computed) simp
  show ?thesis
    by (intro conjI t v a b) simp_all
qed

end
